theory Spec2Isabelle
  imports Main
begin

section \<open>Requests and query values\<close>

text \<open>
  A Go \<open>string\<close> and a \<open>[]byte\<close> are byte sequences; both are modelled as \<open>string\<close>
  (a list of 8-bit characters). \<open>url.Values\<close> is \<open>map[string][]string\<close>; a request is
  modelled after \<open>r.URL.Query()\<close> has parsed the raw query, so that
  \<open>q.Set(...); r.URL.RawQuery = q.Encode()\<close> followed by a later \<open>r.URL.Query()\<close> is the
  update of that map.
\<close>

type_synonym bytes = string

type_synonym url_values = "string \<rightharpoonup> string list"

definition values_Get :: "url_values \<Rightarrow> string \<Rightarrow> string" where
  "values_Get v key = (case v key of None \<Rightarrow> [] | Some [] \<Rightarrow> [] | Some (x # _) \<Rightarrow> x)"

definition values_Set :: "url_values \<Rightarrow> string \<Rightarrow> string \<Rightarrow> url_values" where
  "values_Set v key val = v(key \<mapsto> [val])"

record request =
  req_method :: string
  req_path :: string
  req_query :: url_values

section \<open>The scanner behind \<open>fmt.Sscanf(s, "%d", &n)\<close>\<close>

text \<open>
  \<open>getMaxCount\<close> and the date endpoint both read the limit with
  \<open>fmt.Sscanf(maxCountStr, "%d", &maxCount)\<close>. The scanner skips leading space runes
  (a newline among them is an error, since \<open>Sscanf\<close> does not treat newlines as space),
  accepts one optional sign, requires at least one decimal digit, takes all digits that
  follow, and ignores whatever comes after them. The token is converted by
  \<open>strconv.ParseInt(tok, 10, 64)\<close>, which fails outside the 64-bit range; the target is a
  Go \<open>int\<close>, 64 bits wide on the platforms the service is built for.
\<close>

datatype scan_error = UnexpectedNewline | UnexpectedEOF | ExpectedInteger | OutOfRange

definition intBits :: nat where
  "intBits = 64"

text \<open>
  The width in bytes of the space rune the input starts with, or 0. The space runes of
  package \<open>fmt\<close> are U+0009..U+000D, U+0020, U+0085, U+00A0, U+1680, U+2000..U+200A,
  U+2028, U+2029, U+202F, U+205F and U+3000; beyond ASCII each has exactly one UTF-8
  encoding.
\<close>

definition space_width :: "nat list \<Rightarrow> nat" where
  "space_width bs =
     (case bs of
        [] \<Rightarrow> 0
      | b0 # r0 \<Rightarrow>
          if (9 \<le> b0 \<and> b0 \<le> 13) \<or> b0 = 32 then 1
          else (case r0 of
                  [] \<Rightarrow> 0
                | b1 # r1 \<Rightarrow>
                    if b0 = 0xC2 \<and> (b1 = 0x85 \<or> b1 = 0xA0) then 2
                    else (case r1 of
                            [] \<Rightarrow> 0
                          | b2 # _ \<Rightarrow>
                              if b0 = 0xE1 \<and> b1 = 0x9A \<and> b2 = 0x80 then 3
                              else if b0 = 0xE2 \<and> b1 = 0x80 \<and>
                                      ((0x80 \<le> b2 \<and> b2 \<le> 0x8A) \<or> b2 = 0xA8 \<or> b2 = 0xA9 \<or> b2 = 0xAF)
                                   then 3
                              else if b0 = 0xE2 \<and> b1 = 0x81 \<and> b2 = 0x9F then 3
                              else if b0 = 0xE3 \<and> b1 = 0x80 \<and> b2 = 0x80 then 3
                              else 0)))"

definition isSpace_width :: "string \<Rightarrow> nat" where
  "isSpace_width s = space_width (map of_char (take 3 s))"

function SkipSpace :: "string \<Rightarrow> scan_error + string" where
  "SkipSpace [] = Inr []"
| "SkipSpace (c # cs) =
     (if c = CHR 0x0D \<and> take 1 cs = [CHR 0x0A] then SkipSpace cs
      else if c = CHR 0x0A then Inl UnexpectedNewline
      else if isSpace_width (c # cs) = 0 then Inr (c # cs)
      else SkipSpace (drop (isSpace_width (c # cs) - 1) cs))"
  by pat_completeness auto
termination
  by (relation "measure length") auto

declare SkipSpace.simps [simp del]

definition is_digit :: "char \<Rightarrow> bool" where
  "is_digit c = (48 \<le> (of_char c :: nat) \<and> (of_char c :: nat) \<le> 57)"

definition digit_val :: "char \<Rightarrow> int" where
  "digit_val c = int (of_char c) - 48"

definition digits_value :: "string \<Rightarrow> int" where
  "digits_value ds = foldl (\<lambda>a c. 10 * a + digit_val c) 0 ds"

text \<open>
  \<open>strconv.ParseInt(tok, 10, 64)\<close> on a token made of an optional sign and digits: a
  range error when the magnitude does not fit a signed 64-bit integer.
\<close>

definition ParseInt :: "bool \<Rightarrow> string \<Rightarrow> scan_error + int" where
  "ParseInt neg ds =
     (let un = digits_value ds in
      if \<not> neg \<and> un \<ge> 2 ^ 63 then Inl OutOfRange
      else if neg \<and> un > 2 ^ 63 then Inl OutOfRange
      else Inr (if neg then - un else un))"

text \<open>
  \<open>scanInt\<close> for the verb \<open>d\<close>: skip space, fail at the end of the input, accept a sign,
  fail at the end of the input or on a non-digit, take the digits, convert, and check
  that the value fits the target width.
\<close>

definition scanInt :: "string \<Rightarrow> scan_error + int" where
  "scanInt s =
     (case SkipSpace s of
        Inl e \<Rightarrow> Inl e
      | Inr s1 \<Rightarrow>
          (case s1 of
             [] \<Rightarrow> Inl UnexpectedEOF
           | c # cs \<Rightarrow>
               let neg = (c = CHR ''-'');
                   s2 = (if c = CHR ''+'' \<or> c = CHR ''-'' then cs else s1)
               in (case s2 of
                     [] \<Rightarrow> Inl UnexpectedEOF
                   | d # _ \<Rightarrow>
                       if \<not> is_digit d then Inl ExpectedInteger
                       else (case ParseInt neg (takeWhile is_digit s2) of
                               Inl e \<Rightarrow> Inl e
                             | Inr i \<Rightarrow>
                                 if - (2 ^ (intBits - 1)) \<le> i \<and> i < 2 ^ (intBits - 1)
                                 then Inr i else Inl OutOfRange))))"

text \<open>
  \<open>Sscanf(s, "%d", &n)\<close>: the format loop skips space before the verb and then scans
  one integer; input left after the digits is not looked at. \<open>Inl\<close> is a non-nil
  \<open>err\<close> (nothing is stored), \<open>Inr i\<close> stores \<open>i\<close>.
\<close>

definition Sscanf_d :: "string \<Rightarrow> scan_error + int" where
  "Sscanf_d s = (case SkipSpace s of Inl e \<Rightarrow> Inl e | Inr s1 \<Rightarrow> scanInt s1)"

section \<open>The event-count resolver\<close>


text \<open>
  The decimal numeral of a natural number, as a client writes \<open>max_count=k\<close>.
\<close>

definition digit_char :: "nat \<Rightarrow> char" where
  "digit_char d = ''0123456789'' ! d"

function decimal :: "nat \<Rightarrow> string" where
  "decimal n =
     (if n < 10 then [digit_char n]
      else decimal (n div 10) @ [digit_char (n mod 10)])"
  by pat_completeness auto
termination
  by (relation "measure id") auto

declare decimal.simps [simp del]

section \<open>The external JSON codec\<close>

text \<open>
  What \<open>json.Unmarshal\<close> stores into an \<open>interface{}\<close>: \<open>nil\<close>, a \<open>bool\<close>, a
  \<open>float64\<close> (kept as its 64 bits, stored as a number below \<open>2^64\<close>), a \<open>string\<close>, a
  slice of values or a map from strings to values (kept as a list of pairs).
\<close>

datatype json_value =
    JNull
  | JBool bool
  | JNumber nat
  | JString string
  | JArray "json_value list"
  | JObject "(string \<times> json_value) list"

text \<open>
  Package \<open>encoding/json\<close> is not part of the repository: the dispatcher is verified for
  every codec. \<open>Unmarshal b = None\<close> stands for a non-nil \<open>err\<close> of
  \<open>json.Unmarshal(b, &v)\<close>, \<open>Marshal v = None\<close> for a non-nil \<open>err\<close> when the value \<open>v\<close> is
  encoded.
\<close>

record json_codec =
  Unmarshal :: "bytes \<Rightarrow> json_value option"
  Marshal :: "json_value \<Rightarrow> bytes option"

definition quoted :: "string \<Rightarrow> string" where
  "quoted s = CHR 0x22 # s @ [CHR 0x22]"

text \<open>\<open>DataResponse\<close> and its encoding: a struct with the one field \<open>Data\<close>, tagged \<open>data\<close>.\<close>

record DataResponse =
  Data :: json_value

definition Marshal_DataResponse :: "json_codec \<Rightarrow> DataResponse \<Rightarrow> bytes option" where
  "Marshal_DataResponse codec d =
     (case Marshal codec (Data d) of
        None \<Rightarrow> None
      | Some v \<Rightarrow> Some (''{'' @ quoted ''data'' @ '':'' @ v @ ''}''))"

text \<open>\<open>json.NewEncoder(w).Encode(v)\<close> writes the encoding followed by a newline, in one write.\<close>

definition Encoder_Encode :: "json_codec \<Rightarrow> DataResponse \<Rightarrow> bytes option" where
  "Encoder_Encode codec d =
     (case Marshal_DataResponse codec d of
        None \<Rightarrow> None
      | Some j \<Rightarrow> Some (j @ [CHR 0x0A]))"

section \<open>Response writers\<close>

text \<open>
  The live \<open>http.ResponseWriter\<close> is modelled at its interface: the header map, which
  handlers mutate through \<open>w.Header()\<close>, the calls made on it in order, and whether the
  concrete writer also implements \<open>http.Flusher\<close>.
\<close>

type_synonym http_Header = "string \<rightharpoonup> string list"

datatype rw_call = WriteHeaderCall int | WriteCall bytes | FlushCall

record ResponseWriter =
  rw_header :: http_Header
  rw_calls :: "rw_call list"
  rw_flusher :: bool

definition Header_Set :: "string \<Rightarrow> string \<Rightarrow> http_Header \<Rightarrow> http_Header" where
  "Header_Set key val h = h(key \<mapsto> [val])"

definition Header_Del :: "string \<Rightarrow> http_Header \<Rightarrow> http_Header" where
  "Header_Del key h = h(key := None)"

definition rw_Header_Set :: "string \<Rightarrow> string \<Rightarrow> ResponseWriter \<Rightarrow> ResponseWriter" where
  "rw_Header_Set key val w = w\<lparr>rw_header := Header_Set key val (rw_header w)\<rparr>"

definition rw_WriteHeader :: "int \<Rightarrow> ResponseWriter \<Rightarrow> ResponseWriter" where
  "rw_WriteHeader statusCode w = w\<lparr>rw_calls := rw_calls w @ [WriteHeaderCall statusCode]\<rparr>"

definition rw_Write :: "bytes \<Rightarrow> ResponseWriter \<Rightarrow> ResponseWriter" where
  "rw_Write b w = w\<lparr>rw_calls := rw_calls w @ [WriteCall b]\<rparr>"

definition rw_Flush :: "ResponseWriter \<Rightarrow> ResponseWriter" where
  "rw_Flush w = w\<lparr>rw_calls := rw_calls w @ [FlushCall]\<rparr>"

text \<open>
  \<open>http.Error(w, msg, code)\<close>: drops \<open>Content-Length\<close>, sets the plain-text content type
  and \<open>nosniff\<close>, writes the status and then the message with a newline.
\<close>

definition http_Error :: "ResponseWriter \<Rightarrow> string \<Rightarrow> int \<Rightarrow> ResponseWriter" where
  "http_Error w msg statusCode =
     rw_Write (msg @ [CHR 0x0A])
       (rw_WriteHeader statusCode
          (rw_Header_Set ''X-Content-Type-Options'' ''nosniff''
             (rw_Header_Set ''Content-Type'' ''text/plain; charset=utf-8''
                (w\<lparr>rw_header := Header_Del ''Content-Length'' (rw_header w)\<rparr>))))"

definition is_WriteCall :: "rw_call \<Rightarrow> bool" where
  "is_WriteCall c = (case c of WriteCall _ \<Rightarrow> True | _ \<Rightarrow> False)"

definition is_WriteHeaderCall :: "rw_call \<Rightarrow> bool" where
  "is_WriteHeaderCall c = (case c of WriteHeaderCall _ \<Rightarrow> True | _ \<Rightarrow> False)"

section \<open>Capabilities\<close>

text \<open>
  An \<open>Endpoint\<close> has the one method \<open>HandleSSE(w, r)\<close>. A capability is modelled by the
  finite sequence of calls it makes on its sink for a request, up to its return: header
  updates through \<open>w.Header()\<close>, \<open>w.WriteHeader(code)\<close> and \<open>w.Write(b)\<close>. Both sinks of the
  dispatcher answer every \<open>Write\<close> with \<open>(len(b), nil)\<close> and neither implements
  \<open>http.Flusher\<close>, so the sequence does not depend on their answers.
\<close>

datatype sink_call =
    HeaderCall "http_Header \<Rightarrow> http_Header"
  | WriteHeader int
  | Write bytes

type_synonym Endpoint = "request \<Rightarrow> sink_call list"

fun writes :: "sink_call list \<Rightarrow> bytes list" where
  "writes [] = []"
| "writes (Write b # cs) = b # writes cs"
| "writes (_ # cs) = writes cs"

fun sets_status :: "sink_call \<Rightarrow> bool" where
  "sets_status (WriteHeader _) = True"
| "sets_status _ = False"

section \<open>The registry\<close>




section \<open>The recorder of the single-shot path\<close>

record responseRecorder =
  header :: http_Header
  body :: bytes
  code :: int

definition http_StatusOK :: int where
  "http_StatusOK = 200"

definition http_StatusInternalServerError :: int where
  "http_StatusInternalServerError = 500"

text \<open>One call of the capability on the recorder: \<open>Header\<close>, \<open>WriteHeader\<close> or \<open>Write\<close>.\<close>

fun recorder_call :: "responseRecorder \<Rightarrow> sink_call \<Rightarrow> responseRecorder" where
  "recorder_call rr (HeaderCall f) = rr\<lparr>header := f (header rr)\<rparr>"
| "recorder_call rr (WriteHeader statusCode) = rr\<lparr>code := statusCode\<rparr>"
| "recorder_call rr (Write b) = rr\<lparr>body := body rr @ b\<rparr>"

definition BodyString :: "responseRecorder \<Rightarrow> string" where
  "BodyString rr = body rr"

definition BodyBytes :: "responseRecorder \<Rightarrow> bytes" where
  "BodyBytes rr = body rr"

definition new_recorder :: responseRecorder where
  "new_recorder = \<lparr>header = Map.empty, body = [], code = http_StatusOK\<rparr>"

definition record_HandleSSE :: "Endpoint \<Rightarrow> request \<Rightarrow> responseRecorder" where
  "record_HandleSSE endpointHandler r = foldl recorder_call new_recorder (endpointHandler r)"

section \<open>Wrapping a chunk\<close>

text \<open>
  The block both handlers run on captured bytes: the parsed value when
  \<open>json.Unmarshal\<close> succeeds, the bytes as a string otherwise.
\<close>

definition responseObj :: "json_codec \<Rightarrow> bytes \<Rightarrow> json_value" where
  "responseObj codec responseData =
     (case Unmarshal codec responseData of
        None \<Rightarrow> JString responseData
      | Some v \<Rightarrow> v)"

definition wrappedResponse :: "json_codec \<Rightarrow> bytes \<Rightarrow> DataResponse" where
  "wrappedResponse codec responseData = \<lparr>Data = responseObj codec responseData\<rparr>"

section \<open>The single-shot handler\<close>

text \<open>The request after \<open>q.Set("max_count", "1"); r.URL.RawQuery = q.Encode()\<close>.\<close>

definition rest_request :: "request \<Rightarrow> request" where
  "rest_request r = r\<lparr>req_query := values_Set (req_query r) ''max_count'' ''1''\<rparr>"

text \<open>
  The closure registered for \<open>"/" + endpointName\<close>: force the limit, run the capability
  on a fresh recorder, copy the recorded headers, set the JSON content type, then either
  relay a status other than 200 with the recorded body, or wrap and encode.
\<close>

definition restHandler ::
  "json_codec \<Rightarrow> Endpoint \<Rightarrow> request \<Rightarrow> ResponseWriter \<Rightarrow> ResponseWriter" where
  "restHandler codec endpointHandler r w =
     (let rr = record_HandleSSE endpointHandler (rest_request r);
          w1 = w\<lparr>rw_header := rw_header w ++ header rr\<rparr>;
          w2 = rw_Header_Set ''Content-Type'' ''application/json'' w1
      in if code rr \<noteq> http_StatusOK
         then rw_Write (BodyBytes rr) (rw_WriteHeader (code rr) w2)
         else (case Encoder_Encode codec (wrappedResponse codec (BodyBytes rr)) of
                 Some out \<Rightarrow> rw_Write out w2
               | None \<Rightarrow>
                   http_Error w2 ''Error encoding response'' http_StatusInternalServerError))"


section \<open>The streaming handler\<close>

text \<open>The frame of one chunk, \<open>None\<close> when \<open>json.Marshal\<close> fails.\<close>

definition sse_frame :: "json_codec \<Rightarrow> bytes \<Rightarrow> bytes option" where
  "sse_frame codec responseData =
     (case Marshal_DataResponse codec (wrappedResponse codec responseData) of
        None \<Rightarrow> None
      | Some wrappedData \<Rightarrow> Some (''data: '' @ wrappedData @ [CHR 0x0A, CHR 0x0A]))"

text \<open>
  The body of the loop \<open>for responseData := range responseChan\<close>, run over the chunks
  received in order: a chunk that fails to encode is skipped (\<open>continue\<close>), any other is
  written as one frame and flushed.
\<close>

fun drain :: "json_codec \<Rightarrow> bytes list \<Rightarrow> rw_call list" where
  "drain codec [] = []"
| "drain codec (responseData # rest) =
     (case sse_frame codec responseData of
        None \<Rightarrow> drain codec rest
      | Some frame \<Rightarrow> WriteCall frame # FlushCall # drain codec rest)"

definition sse_headers :: "ResponseWriter \<Rightarrow> ResponseWriter" where
  "sse_headers w =
     rw_Header_Set ''Access-Control-Allow-Origin'' ''*''
       (rw_Header_Set ''Connection'' ''keep-alive''
          (rw_Header_Set ''Cache-Control'' ''no-cache''
             (rw_Header_Set ''Content-Type'' ''text/event-stream'' w)))"

text \<open>
  The two execution contexts of a streaming connection. The capability's goroutine runs
  its calls; \<open>Header\<close> and \<open>WriteHeader\<close> are promoted from the embedded live writer,
  \<open>Write\<close> is \<open>customResponseWriter.Write\<close>, which parks the goroutine in the send
  \<open>w.responseChan <- data\<close> until the chunk is received; after the capability returns the
  channel is closed. The handler's own context is the \<open>range\<close> loop: receive, encode,
  write, flush.
\<close>

datatype producer = Running "sink_call list" | Sending "sink_call list" | Returned

datatype consumer = Receiving | Encoding bytes | Flushing | Exited

text \<open>
  \<open>st_chan\<close> holds the chunks handed to \<open>responseChan\<close> (made by \<open>make(chan []byte)\<close>,
  without buffer) by senders that are parked and not yet received.
\<close>

record sse_state =
  st_prod :: producer
  st_chan :: "bytes list"
  st_closed :: bool
  st_cons :: consumer
  st_w :: ResponseWriter

fun wake :: "producer \<Rightarrow> producer" where
  "wake (Sending k) = Running k"
| "wake p = p"

inductive sse_step :: "json_codec \<Rightarrow> sse_state \<Rightarrow> sse_state \<Rightarrow> bool" for codec where
  prod_header:
    "st_prod s = Running (HeaderCall f # k) \<Longrightarrow>
     sse_step codec s
       (s\<lparr>st_prod := Running k, st_w := (st_w s)\<lparr>rw_header := f (rw_header (st_w s))\<rparr>\<rparr>)"
| prod_status:
    "st_prod s = Running (WriteHeader statusCode # k) \<Longrightarrow>
     sse_step codec s (s\<lparr>st_prod := Running k, st_w := rw_WriteHeader statusCode (st_w s)\<rparr>)"
| prod_send:
    "st_prod s = Running (Write b # k) \<Longrightarrow>
     sse_step codec s (s\<lparr>st_prod := Sending k, st_chan := st_chan s @ [b]\<rparr>)"
| prod_return:
    "st_prod s = Running [] \<Longrightarrow>
     sse_step codec s (s\<lparr>st_prod := Returned, st_closed := True\<rparr>)"
| cons_receive:
    "st_cons s = Receiving \<Longrightarrow> st_chan s = b # q \<Longrightarrow>
     sse_step codec s (s\<lparr>st_prod := wake (st_prod s), st_chan := q, st_cons := Encoding b\<rparr>)"
| cons_closed:
    "st_cons s = Receiving \<Longrightarrow> st_chan s = [] \<Longrightarrow> st_closed s \<Longrightarrow>
     sse_step codec s (s\<lparr>st_cons := Exited\<rparr>)"
| cons_skip:
    "st_cons s = Encoding b \<Longrightarrow> sse_frame codec b = None \<Longrightarrow>
     sse_step codec s (s\<lparr>st_cons := Receiving\<rparr>)"
| cons_write:
    "st_cons s = Encoding b \<Longrightarrow> sse_frame codec b = Some frame \<Longrightarrow>
     sse_step codec s (s\<lparr>st_cons := Flushing, st_w := rw_Write frame (st_w s)\<rparr>)"
| cons_flush:
    "st_cons s = Flushing \<Longrightarrow>
     sse_step codec s (s\<lparr>st_cons := Receiving, st_w := rw_Flush (st_w s)\<rparr>)"

text \<open>The state when the goroutine has been started and the loop is entered.\<close>

definition sse_init :: "Endpoint \<Rightarrow> request \<Rightarrow> ResponseWriter \<Rightarrow> sse_state" where
  "sse_init endpointHandler r w =
     \<lparr>st_prod = Running (endpointHandler r), st_chan = [], st_closed = False,
      st_cons = Receiving, st_w = w\<rparr>"

definition sse_reachable ::
  "json_codec \<Rightarrow> Endpoint \<Rightarrow> request \<Rightarrow> ResponseWriter \<Rightarrow> sse_state \<Rightarrow> bool" where
  "sse_reachable codec endpointHandler r w s =
     (sse_step codec)\<^sup>*\<^sup>* (sse_init endpointHandler r (sse_headers w)) s"

text \<open>
  The closure registered for \<open>"/" + endpointName + "/stream"\<close>, as the relation between
  the live writer before and after: without \<open>http.Flusher\<close> the handler answers with
  \<open>http.Error\<close>; otherwise it returns when the loop has left.
\<close>

definition sseHandler ::
  "json_codec \<Rightarrow> Endpoint \<Rightarrow> request \<Rightarrow> ResponseWriter \<Rightarrow> ResponseWriter \<Rightarrow> bool" where
  "sseHandler codec endpointHandler r w w' =
     (if \<not> rw_flusher w
      then w' = http_Error (sse_headers w) ''Streaming not supported''
                  http_StatusInternalServerError
      else (\<exists>s. sse_reachable codec endpointHandler r w s \<and> st_cons s = Exited \<and> w' = st_w s))"

text \<open>
  One schedule of the two contexts, as a function: every chunk is received, encoded,
  written and flushed as soon as it is sent.
\<close>

definition forward :: "json_codec \<Rightarrow> bytes \<Rightarrow> ResponseWriter \<Rightarrow> ResponseWriter" where
  "forward codec b w =
     (case sse_frame codec b of
        None \<Rightarrow> w
      | Some frame \<Rightarrow> rw_Flush (rw_Write frame w))"

fun sse_lockstep :: "json_codec \<Rightarrow> sink_call list \<Rightarrow> ResponseWriter \<Rightarrow> ResponseWriter" where
  "sse_lockstep codec [] w = w"
| "sse_lockstep codec (HeaderCall f # k) w =
     sse_lockstep codec k (w\<lparr>rw_header := f (rw_header w)\<rparr>)"
| "sse_lockstep codec (WriteHeader statusCode # k) w =
     sse_lockstep codec k (rw_WriteHeader statusCode w)"
| "sse_lockstep codec (Write b # k) w = sse_lockstep codec k (forward codec b w)"

text \<open>The frames of a call log: everything but the capability's own \<open>WriteHeader\<close> calls.\<close>

definition frame_calls :: "rw_call list \<Rightarrow> rw_call list" where
  "frame_calls cs = filter (\<lambda>c. \<not> is_WriteHeaderCall c) cs"

text \<open>What is still to be forwarded in a state, chunk by chunk.\<close>

fun prod_script :: "producer \<Rightarrow> sink_call list" where
  "prod_script (Running k) = k"
| "prod_script (Sending k) = k"
| "prod_script Returned = []"

fun cons_pending :: "json_codec \<Rightarrow> consumer \<Rightarrow> rw_call list" where
  "cons_pending codec Receiving = []"
| "cons_pending codec (Encoding b) = drain codec [b]"
| "cons_pending codec Flushing = [FlushCall]"
| "cons_pending codec Exited = []"

text \<open>A measure of the work left: every step lowers it.\<close>

fun prod_measure :: "producer \<Rightarrow> nat" where
  "prod_measure (Running k) = 4 * length k + 4"
| "prod_measure (Sending k) = 4 * length k + 3"
| "prod_measure Returned = 0"

fun cons_measure :: "consumer \<Rightarrow> nat" where
  "cons_measure Receiving = 1"
| "cons_measure (Encoding b) = 3"
| "cons_measure Flushing = 2"
| "cons_measure Exited = 0"

definition sse_measure :: "sse_state \<Rightarrow> nat" where
  "sse_measure s = prod_measure (st_prod s) + 4 * length (st_chan s) + cons_measure (st_cons s)"

text \<open>
  What holds in every state of a connection: a parked sender has exactly its one chunk
  in the channel and otherwise the channel is empty, the channel is closed exactly when
  the capability has returned, and the loop leaves only on a closed channel.
\<close>

definition sse_inv :: "sse_state \<Rightarrow> bool" where
  "sse_inv s =
     ((case st_prod s of Sending k \<Rightarrow> length (st_chan s) = 1 | _ \<Rightarrow> st_chan s = []) \<and>
      st_closed s = (st_prod s = Returned) \<and>
      (st_cons s = Exited \<longrightarrow> st_closed s))"

text \<open>The frames written so far followed by the frames of everything not yet forwarded.\<close>

definition sse_frames_total :: "json_codec \<Rightarrow> sse_state \<Rightarrow> rw_call list" where
  "sse_frames_total codec s =
     frame_calls (rw_calls (st_w s)) @ cons_pending codec (st_cons s) @
     drain codec (st_chan s) @ drain codec (writes (prod_script (st_prod s)))"

section \<open>The relay writer and its memory\<close>

text \<open>
  \<open>customResponseWriter.Write\<close> copies its argument before sending it. To state that the
  copy is independent of the caller's buffer, byte slices are modelled over a store: a
  slice is a window (\<open>off\<close>, \<open>len\<close>) into a backing array at an address, \<open>make\<close> takes the
  next free address, and \<open>copy\<close> overwrites the start of the destination window.
\<close>

type_synonym addr = nat

record slice =
  base :: addr
  off :: nat
  len :: nat

record memory =
  arrays :: "addr \<rightharpoonup> bytes"
  next_free :: addr

definition array_at :: "memory \<Rightarrow> addr \<Rightarrow> bytes" where
  "array_at m a = (case arrays m a of None \<Rightarrow> [] | Some bs \<Rightarrow> bs)"

definition slice_bytes :: "memory \<Rightarrow> slice \<Rightarrow> bytes" where
  "slice_bytes m s = take (len s) (drop (off s) (array_at m (base s)))"

text \<open>A slice of the program: its array is allocated and the window lies inside it.\<close>

definition valid_slice :: "memory \<Rightarrow> slice \<Rightarrow> bool" where
  "valid_slice m s =
     (base s < next_free m \<and> arrays m (base s) \<noteq> None \<and>
      off s + len s \<le> length (array_at m (base s)))"

definition make_bytes :: "nat \<Rightarrow> memory \<Rightarrow> slice \<times> memory" where
  "make_bytes n m =
     (\<lparr>base = next_free m, off = 0, len = n\<rparr>,
      m\<lparr>arrays := (arrays m)(next_free m \<mapsto> replicate n (CHR 0x00)),
        next_free := Suc (next_free m)\<rparr>)"

definition copy_bytes :: "slice \<Rightarrow> slice \<Rightarrow> memory \<Rightarrow> memory" where
  "copy_bytes dst src m =
     (let n = min (len dst) (len src);
          old = array_at m (base dst);
          new = take (off dst) old @ take n (slice_bytes m src) @ drop (off dst + n) old
      in m\<lparr>arrays := (arrays m)(base dst \<mapsto> new)\<rparr>)"

text \<open>A later store of the caller into the array behind one of its slices.\<close>

definition store_array :: "addr \<Rightarrow> bytes \<Rightarrow> memory \<Rightarrow> memory" where
  "store_array a bs m = m\<lparr>arrays := (arrays m)(a \<mapsto> bs)\<rparr>"

datatype go_error = WriteFailed

text \<open>
  \<open>Write\<close>: \<open>data := make([]byte, len(b)); copy(data, b); w.responseChan <- data;
  return len(b), nil\<close>. The result is the memory, the channel with the slice sent, and
  the returned pair.
\<close>

definition customResponseWriter_Write ::
  "slice \<Rightarrow> memory \<times> slice list \<Rightarrow> (memory \<times> slice list) \<times> (nat \<times> go_error option)" where
  "customResponseWriter_Write b st =
     (let (m, responseChan) = st;
          (data, m1) = make_bytes (len b) m;
          m2 = copy_bytes data b m1
      in ((m2, responseChan @ [data]), (len b, None)))"

section \<open>The date endpoint\<close>

text \<open>
  \<open>HandleSSE\<close> of package \<open>date\<close> reads the limit itself: the scanned integer, 0 when the
  scan fails (the error is dropped and \<open>maxCount\<close> keeps its zero value), 3600 when the
  parameter is empty.
\<close>

definition date_maxCount :: "request \<Rightarrow> int" where
  "date_maxCount r =
     (let maxCountStr = values_Get (req_query r) ''max_count'' in
      if maxCountStr \<noteq> []
      then (case Sscanf_d maxCountStr of Inl err \<Rightarrow> 0 | Inr maxCount \<Rightarrow> maxCount)
      else 3600)"

text \<open>
  What the \<open>select\<close> of the loop receives: the context is done, or the ticker fires, with
  the text of \<open>time.Now().UTC().Format(time.RFC3339)\<close> at that moment.
\<close>

datatype date_event = Done | Tick string

definition DateResponse_Marshal :: "string \<Rightarrow> bytes" where
  "DateResponse_Marshal utc = ''{'' @ quoted ''UTC'' @ '':'' @ quoted utc @ ''}''"

text \<open>
  The loop over the events seen so far: return on \<open>Done\<close>, return at a tick once
  \<open>count >= maxCount\<close>, otherwise write the encoded time and count. When the events end
  the endpoint is still waiting. The loop's two error returns are not branches here:
  \<open>json.Marshal\<close> of a struct with one string field does not fail (and an RFC 3339 text
  needs no escaping, so its encoding is the text between quotes), and both sinks return
  a nil error from \<open>Write\<close>.
\<close>

fun date_loop :: "int \<Rightarrow> int \<Rightarrow> date_event list \<Rightarrow> sink_call list" where
  "date_loop maxCount count [] = []"
| "date_loop maxCount count (Done # evs) = []"
| "date_loop maxCount count (Tick utc # evs) =
     (if count \<ge> maxCount then []
      else Write (DateResponse_Marshal utc) # date_loop maxCount (count + 1) evs)"

definition date_HandleSSE :: "date_event list \<Rightarrow> Endpoint" where
  "date_HandleSSE evs r = date_loop (date_maxCount r) 0 evs"

section \<open>The mock endpoint of the tests\<close>

text \<open>\<open>MockEndpoint.HandleSSE\<close>: set the content type, write the data once.\<close>

definition MockEndpoint_HandleSSE :: "bytes \<Rightarrow> Endpoint" where
  "MockEndpoint_HandleSSE data r =
     [HeaderCall (Header_Set ''Content-Type'' ''application/json''), Write data]"

section \<open>A codec for the examples\<close>

text \<open>
  The chunk of the specification's example, the chunk of the repository's tests, and a
  codec that answers as \<open>encoding/json\<close> does on the inputs the examples below use: these
  two chunks, chunks that are not JSON texts, and the encoding of strings in which
  nothing has to be escaped.
\<close>

definition utc_chunk :: bytes where
  "utc_chunk = DateResponse_Marshal ''2025-02-27T12:31:34Z''"

definition hello_chunk :: bytes where
  "hello_chunk = ''{'' @ quoted ''message'' @ '':'' @ quoted ''Hello, World!'' @ ''}''"

definition example_codec :: json_codec where
  "example_codec =
     \<lparr>Unmarshal = (\<lambda>b.
        if b = utc_chunk then Some (JObject [(''UTC'', JString ''2025-02-27T12:31:34Z'')])
        else if b = hello_chunk then Some (JObject [(''message'', JString ''Hello, World!'')])
        else None),
      Marshal = (\<lambda>v.
        case v of
          JString s \<Rightarrow> Some (quoted s)
        | JObject [(k, JString s)] \<Rightarrow> Some (''{'' @ quoted k @ '':'' @ quoted s @ ''}'')
        | _ \<Rightarrow> None)\<rparr>"

text \<open>A codec whose encoder fails on one string, to exercise the error branches.\<close>

definition failing_codec :: json_codec where
  "failing_codec =
     \<lparr>Unmarshal = (\<lambda>b. None),
      Marshal = (\<lambda>v.
        case v of
          JString s \<Rightarrow> if s = ''bad'' then None else Some (quoted s)
        | _ \<Rightarrow> None)\<rparr>"

definition fresh_writer :: ResponseWriter where
  "fresh_writer = \<lparr>rw_header = Map.empty, rw_calls = [], rw_flusher = True\<rparr>"

section \<open>Facts about the scanner\<close>

lemma digit_char:
  assumes "d < 10"
  shows "is_digit (digit_char d) \<and> digit_val (digit_char d) = int d"
proof -
  have "d = 0 \<or> d = 1 \<or> d = 2 \<or> d = 3 \<or> d = 4 \<or> d = 5 \<or> d = 6 \<or> d = 7 \<or> d = 8 \<or> d = 9"
    using assms by arith
  then show ?thesis
    by (elim disjE) (simp_all add: digit_char_def is_digit_def digit_val_def)
qed

lemma decimal_digits: "\<forall>c \<in> set (decimal n). is_digit c"
proof (induction n rule: decimal.induct)
  case (1 n)
  show ?case
  proof (cases "n < 10")
    case True
    then show ?thesis by (subst decimal.simps) (simp add: digit_char)
  next
    case False
    moreover have "is_digit (digit_char (n mod 10))" by (simp add: digit_char)
    ultimately show ?thesis using 1 by (subst decimal.simps) simp
  qed
qed

lemma decimal_nonempty: "decimal n \<noteq> []"
  by (subst decimal.simps) simp

lemma digits_value_snoc: "digits_value (ds @ [c]) = 10 * digits_value ds + digit_val c"
  by (simp add: digits_value_def)

lemma digits_value_decimal: "digits_value (decimal n) = int n"
proof (induction n rule: decimal.induct)
  case (1 n)
  show ?case
  proof (cases "n < 10")
    case True
    then show ?thesis
      by (subst decimal.simps) (simp add: digits_value_def digit_char)
  next
    case False
    then have "digits_value (decimal n) = 10 * int (n div 10) + int (n mod 10)"
      using 1 by (subst decimal.simps) (simp add: digits_value_snoc digit_char)
    also have "\<dots> = int (10 * (n div 10) + n mod 10)"
      by (simp only: of_nat_add of_nat_mult of_nat_numeral)
    also have "\<dots> = int n" by simp
    finally show ?thesis .
  qed
qed

lemma space_first:
  "(9 \<le> (of_char c :: nat) \<and> (of_char c :: nat) \<le> 13) \<or> (of_char c :: nat) = 32
   \<Longrightarrow> isSpace_width (c # cs) = 1"
  by (simp add: isSpace_width_def space_width_def)

lemma SkipSpace_not_space:
  assumes "isSpace_width (c # cs) = 0"
  shows "SkipSpace (c # cs) = Inr (c # cs)"
proof -
  have "(of_char c :: nat) \<noteq> 13" and "(of_char c :: nat) \<noteq> 10"
    using space_first [of c cs] assms by auto
  then have "c \<noteq> CHR 0x0D" and "c \<noteq> CHR 0x0A" by auto
  then show ?thesis using assms by (simp add: SkipSpace.simps)
qed

lemma digit_not_space: "is_digit c \<Longrightarrow> isSpace_width (c # cs) = 0"
  by (cases cs; cases "tl cs")
    (auto simp: is_digit_def isSpace_width_def space_width_def)


lemma digit_not_sign: "is_digit c \<Longrightarrow> c \<noteq> CHR ''+'' \<and> c \<noteq> CHR ''-''"
  by (auto simp: is_digit_def)

text \<open>What the scanner returns on a sign followed by digits only.\<close>

lemma scanInt_digits:
  assumes "ds \<noteq> []" and "\<forall>c \<in> set ds. is_digit c" and "digits_value ds < 2 ^ 63"
  shows "scanInt ds = Inr (digits_value ds)"
proof -
  obtain c cs where ds: "ds = c # cs" using assms(1) by (cases ds) auto
  have c: "is_digit c" using assms(2) ds by simp
  have tw: "takeWhile is_digit cs = cs"
    using assms(2) ds by (simp add: takeWhile_eq_all_conv)
  have nonneg: "0 \<le> digit_val x" if "is_digit x" for x
    using that by (simp add: is_digit_def digit_val_def)
  have pi: "ParseInt False (c # cs) = Inr (digits_value (c # cs))"
    using assms(3) ds by (simp add: ParseInt_def Let_def)
  have ss: "SkipSpace (c # cs) = Inr (c # cs)"
    by (rule SkipSpace_not_space [OF digit_not_space [OF c]])
  have ns: "c \<noteq> CHR ''+''" "c \<noteq> CHR ''-''" using digit_not_sign [OF c] by auto
  have ge: "- (2 ^ 63) \<le> digits_value (c # cs)"
  proof -
    have "0 \<le> foldl (\<lambda>a x. 10 * a + digit_val x) a xs" if "0 \<le> a" "\<forall>x \<in> set xs. is_digit x" for a xs
      using that by (induction xs arbitrary: a) (auto simp: nonneg)
    then have "0 \<le> digits_value (c # cs)"
      using assms(2) ds unfolding digits_value_def by blast
    then show ?thesis by simp
  qed
  have "scanInt (c # cs) = Inr (digits_value (c # cs))"
    unfolding scanInt_def using ns c assms(3) ds ge
    by (simp add: Let_def intBits_def ss tw pi)
  then show ?thesis using ds by simp
qed

lemma Sscanf_d_decimal:
  assumes "n < 2 ^ 63"
  shows "Sscanf_d (decimal n) = Inr (int n)"
proof -
  obtain c cs where ds: "decimal n = c # cs"
    using decimal_nonempty [of n] by (cases "decimal n") auto
  have c: "is_digit c" using decimal_digits [of n] ds by simp
  have "SkipSpace (decimal n) = Inr (decimal n)"
    using SkipSpace_not_space [OF digit_not_space [OF c]] ds by simp
  moreover have "int n < 2 ^ 63"
    using assms by (metis of_nat_less_iff of_nat_numeral of_nat_power)
  then have "scanInt (decimal n) = Inr (int n)"
    using scanInt_digits [of "decimal n"] decimal_nonempty decimal_digits
    by (simp add: digits_value_decimal)
  ultimately show ?thesis by (simp add: Sscanf_d_def)
qed




section \<open>Facts about the single-shot handler\<close>

lemma recorder_body: "body (foldl recorder_call rr cs) = body rr @ concat (writes cs)"
proof (induction cs arbitrary: rr)
  case Nil
  then show ?case by simp
next
  case (Cons c cs)
  then show ?case by (cases c) simp_all
qed

lemma recorder_code_unset:
  "\<forall>c \<in> set cs. \<not> sets_status c \<Longrightarrow> code (foldl recorder_call rr cs) = code rr"
proof (induction cs arbitrary: rr)
  case Nil
  then show ?case by simp
next
  case (Cons c cs)
  then show ?case by (cases c) simp_all
qed

lemma record_HandleSSE_body:
  "body (record_HandleSSE endpointHandler r) = concat (writes (endpointHandler r))"
  by (simp add: record_HandleSSE_def recorder_body new_recorder_def)




lemma restHandler_wrap:
  assumes "code (record_HandleSSE endpointHandler (rest_request r)) = http_StatusOK"
    and "Encoder_Encode codec
           (wrappedResponse codec (body (record_HandleSSE endpointHandler (rest_request r)))) = Some out"
  shows "rw_calls (restHandler codec endpointHandler r w) = rw_calls w @ [WriteCall out]"
  using assms
  by (simp add: restHandler_def Let_def rw_Write_def rw_Header_Set_def BodyBytes_def)

lemma restHandler_encode_error:
  assumes "code (record_HandleSSE endpointHandler (rest_request r)) = http_StatusOK"
    and "Encoder_Encode codec
           (wrappedResponse codec (body (record_HandleSSE endpointHandler (rest_request r)))) = None"
  shows "rw_calls (restHandler codec endpointHandler r w) =
           rw_calls w @ [WriteHeaderCall http_StatusInternalServerError,
                         WriteCall (''Error encoding response'' @ [CHR 0x0A])]"
  using assms
  by (simp add: restHandler_def Let_def rw_Write_def rw_Header_Set_def BodyBytes_def
      http_Error_def rw_WriteHeader_def)


lemma example_hello:
  "Encoder_Encode example_codec (wrappedResponse example_codec hello_chunk) =
     Some (''{'' @ quoted ''data'' @ '':'' @ hello_chunk @ ''}'' @ [CHR 0x0A])"
  by (simp add: Encoder_Encode_def Marshal_DataResponse_def wrappedResponse_def responseObj_def
      example_codec_def hello_chunk_def utc_chunk_def DateResponse_Marshal_def quoted_def)

section \<open>Facts about the streaming handler\<close>

lemma drain_append: "drain codec (xs @ ys) = drain codec xs @ drain codec ys"
  by (induction xs) (auto split: option.splits)

lemma drain_frames:
  "drain codec chunks =
     concat (map (\<lambda>b. case sse_frame codec b of None \<Rightarrow> [] | Some frame \<Rightarrow> [WriteCall frame, FlushCall])
       chunks)"
  by (induction chunks) (auto split: option.splits)

lemma frame_calls_append [simp]: "frame_calls (xs @ ys) = frame_calls xs @ frame_calls ys"
  by (simp add: frame_calls_def)

lemma frame_calls_drain [simp]: "frame_calls (drain codec chunks) = drain codec chunks"
  by (induction chunks) (auto simp: frame_calls_def is_WriteHeaderCall_def split: option.splits)

lemma sse_inv_init: "sse_inv (sse_init endpointHandler r w)"
  by (simp add: sse_inv_def sse_init_def)

lemma sse_inv_step:
  assumes "sse_step codec s s'" and "sse_inv s"
  shows "sse_inv s'"
  using assms
proof (induction rule: sse_step.induct)
  case (cons_receive s b q)
  then show ?case by (cases "st_prod s") (auto simp: sse_inv_def)
qed (auto simp: sse_inv_def split: producer.splits)

lemma sse_inv_steps:
  assumes "(sse_step codec)\<^sup>*\<^sup>* s s'" and "sse_inv s"
  shows "sse_inv s'"
  using assms by (induction rule: rtranclp_induct) (auto intro: sse_inv_step)

lemma sse_inv_reachable: "sse_reachable codec endpointHandler r w s \<Longrightarrow> sse_inv s"
  unfolding sse_reachable_def using sse_inv_steps sse_inv_init by blast

lemma prod_script_wake [simp]: "prod_script (wake p) = prod_script p"
  by (cases p) simp_all

lemma sse_frames_total_step:
  assumes "sse_step codec s s'"
  shows "sse_frames_total codec s' = sse_frames_total codec s"
  using assms
proof (induction rule: sse_step.induct)
  case (prod_send s b k)
  then show ?case by (simp add: sse_frames_total_def drain_append split: option.splits)
next
  case (cons_receive s b q)
  then show ?case
    using drain_append [of codec "[b]" q]
    by (simp add: sse_frames_total_def split: option.splits)
qed (simp_all add: sse_frames_total_def rw_WriteHeader_def rw_Write_def rw_Flush_def
      frame_calls_def is_WriteHeaderCall_def)

lemma sse_frames_total_steps:
  assumes "(sse_step codec)\<^sup>*\<^sup>* s s'"
  shows "sse_frames_total codec s' = sse_frames_total codec s"
  using assms by (induction rule: rtranclp_induct) (auto simp: sse_frames_total_step)

lemma sse_headers_calls [simp]: "rw_calls (sse_headers w) = rw_calls w"
  by (simp add: sse_headers_def rw_Header_Set_def)

lemma sse_frames_total_reachable:
  assumes "sse_reachable codec endpointHandler r w s"
  shows "sse_frames_total codec s =
           frame_calls (rw_calls w) @ drain codec (writes (endpointHandler r))"
proof -
  have "sse_frames_total codec s =
          sse_frames_total codec (sse_init endpointHandler r (sse_headers w))"
    using assms unfolding sse_reachable_def by (rule sse_frames_total_steps)
  then show ?thesis by (simp add: sse_frames_total_def sse_init_def)
qed

lemma sse_exit_frames:
  assumes "sse_reachable codec endpointHandler r w s" and "st_cons s = Exited"
  shows "frame_calls (rw_calls (st_w s)) =
           frame_calls (rw_calls w) @ drain codec (writes (endpointHandler r))"
proof -
  have inv: "sse_inv s" using assms(1) by (rule sse_inv_reachable)
  then have "st_prod s = Returned" and "st_chan s = []"
    using assms(2) by (auto simp: sse_inv_def)
  then have "sse_frames_total codec s = frame_calls (rw_calls (st_w s))"
    using assms(2) by (simp add: sse_frames_total_def)
  then show ?thesis using sse_frames_total_reachable [OF assms(1)] by simp
qed

lemma sse_measure_step:
  assumes "sse_step codec s s'"
  shows "sse_measure s' < sse_measure s"
  using assms
proof (induction rule: sse_step.induct)
  case (cons_receive s b q)
  then show ?case by (cases "st_prod s") (simp_all add: sse_measure_def)
qed (simp_all add: sse_measure_def)

lemma sse_progress:
  assumes "sse_inv s" and "st_cons s \<noteq> Exited"
  shows "\<exists>s'. sse_step codec s s'"
proof (cases "st_cons s")
  case Receiving
  show ?thesis
  proof (cases "st_chan s")
    case (Cons b q)
    then show ?thesis using Receiving sse_step.cons_receive by blast
  next
    case Nil
    show ?thesis
    proof (cases "st_prod s")
      case (Running k)
      show ?thesis
      proof (cases k)
        case Nil
        then show ?thesis using Running sse_step.prod_return by blast
      next
        case (Cons c k')
        then show ?thesis
          using Running sse_step.prod_header sse_step.prod_status sse_step.prod_send
          by (cases c) blast+
      qed
    next
      case (Sending k)
      then show ?thesis using assms(1) Nil by (simp add: sse_inv_def)
    next
      case Returned
      then have "st_closed s" using assms(1) by (simp add: sse_inv_def)
      then show ?thesis using Receiving Nil sse_step.cons_closed by blast
    qed
  qed
next
  case (Encoding b)
  then show ?thesis
    using sse_step.cons_skip sse_step.cons_write by (cases "sse_frame codec b") blast+
next
  case Flushing
  then show ?thesis using sse_step.cons_flush by blast
next
  case Exited
  then show ?thesis using assms(2) by simp
qed

lemma sse_terminates:
  assumes "sse_inv s"
  shows "\<exists>s'. (sse_step codec)\<^sup>*\<^sup>* s s' \<and> st_cons s' = Exited"
  using assms
proof (induction "sse_measure s" arbitrary: s rule: less_induct)
  case less
  show ?case
  proof (cases "st_cons s = Exited")
    case True
    then show ?thesis by blast
  next
    case False
    then obtain s1 where step: "sse_step codec s s1"
      using sse_progress [OF less.prems] by blast
    then have "sse_measure s1 < sse_measure s" by (rule sse_measure_step)
    moreover have "sse_inv s1" using step less.prems by (rule sse_inv_step)
    ultimately obtain s' where "(sse_step codec)\<^sup>*\<^sup>* s1 s'" and "st_cons s' = Exited"
      using less.hyps by blast
    then show ?thesis using step by (meson converse_rtranclp_into_rtranclp)
  qed
qed

lemma step_header:
  "sse_step codec
     \<lparr>st_prod = Running (HeaderCall f # k), st_chan = ch, st_closed = cl, st_cons = c, st_w = w\<rparr>
     \<lparr>st_prod = Running k, st_chan = ch, st_closed = cl, st_cons = c,
      st_w = w\<lparr>rw_header := f (rw_header w)\<rparr>\<rparr>"
  using sse_step.prod_header
    [of "\<lparr>st_prod = Running (HeaderCall f # k), st_chan = ch, st_closed = cl, st_cons = c, st_w = w\<rparr>"
        f k codec]
  by simp

lemma step_status:
  "sse_step codec
     \<lparr>st_prod = Running (WriteHeader statusCode # k), st_chan = ch, st_closed = cl, st_cons = c,
      st_w = w\<rparr>
     \<lparr>st_prod = Running k, st_chan = ch, st_closed = cl, st_cons = c,
      st_w = rw_WriteHeader statusCode w\<rparr>"
  using sse_step.prod_status
    [of "\<lparr>st_prod = Running (WriteHeader statusCode # k), st_chan = ch, st_closed = cl,
          st_cons = c, st_w = w\<rparr>" statusCode k codec]
  by simp

lemma step_send:
  "sse_step codec
     \<lparr>st_prod = Running (Write b # k), st_chan = ch, st_closed = cl, st_cons = c, st_w = w\<rparr>
     \<lparr>st_prod = Sending k, st_chan = ch @ [b], st_closed = cl, st_cons = c, st_w = w\<rparr>"
  using sse_step.prod_send
    [of "\<lparr>st_prod = Running (Write b # k), st_chan = ch, st_closed = cl, st_cons = c, st_w = w\<rparr>"
        b k codec]
  by simp

lemma step_return:
  "sse_step codec
     \<lparr>st_prod = Running [], st_chan = ch, st_closed = cl, st_cons = c, st_w = w\<rparr>
     \<lparr>st_prod = Returned, st_chan = ch, st_closed = True, st_cons = c, st_w = w\<rparr>"
  using sse_step.prod_return
    [of "\<lparr>st_prod = Running [], st_chan = ch, st_closed = cl, st_cons = c, st_w = w\<rparr>" codec]
  by simp

lemma step_receive:
  "sse_step codec
     \<lparr>st_prod = p, st_chan = b # q, st_closed = cl, st_cons = Receiving, st_w = w\<rparr>
     \<lparr>st_prod = wake p, st_chan = q, st_closed = cl, st_cons = Encoding b, st_w = w\<rparr>"
  using sse_step.cons_receive
    [of "\<lparr>st_prod = p, st_chan = b # q, st_closed = cl, st_cons = Receiving, st_w = w\<rparr>" b q codec]
  by simp

lemma step_closed:
  "sse_step codec
     \<lparr>st_prod = p, st_chan = [], st_closed = True, st_cons = Receiving, st_w = w\<rparr>
     \<lparr>st_prod = p, st_chan = [], st_closed = True, st_cons = Exited, st_w = w\<rparr>"
  using sse_step.cons_closed
    [of "\<lparr>st_prod = p, st_chan = [], st_closed = True, st_cons = Receiving, st_w = w\<rparr>" codec]
  by simp

lemma step_skip:
  "sse_frame codec b = None \<Longrightarrow>
   sse_step codec
     \<lparr>st_prod = p, st_chan = ch, st_closed = cl, st_cons = Encoding b, st_w = w\<rparr>
     \<lparr>st_prod = p, st_chan = ch, st_closed = cl, st_cons = Receiving, st_w = w\<rparr>"
  using sse_step.cons_skip
    [of "\<lparr>st_prod = p, st_chan = ch, st_closed = cl, st_cons = Encoding b, st_w = w\<rparr>" b codec]
  by simp

lemma step_write:
  "sse_frame codec b = Some frame \<Longrightarrow>
   sse_step codec
     \<lparr>st_prod = p, st_chan = ch, st_closed = cl, st_cons = Encoding b, st_w = w\<rparr>
     \<lparr>st_prod = p, st_chan = ch, st_closed = cl, st_cons = Flushing, st_w = rw_Write frame w\<rparr>"
  using sse_step.cons_write
    [of "\<lparr>st_prod = p, st_chan = ch, st_closed = cl, st_cons = Encoding b, st_w = w\<rparr>" b codec frame]
  by simp

lemma step_flush:
  "sse_step codec
     \<lparr>st_prod = p, st_chan = ch, st_closed = cl, st_cons = Flushing, st_w = w\<rparr>
     \<lparr>st_prod = p, st_chan = ch, st_closed = cl, st_cons = Receiving, st_w = rw_Flush w\<rparr>"
  using sse_step.cons_flush
    [of "\<lparr>st_prod = p, st_chan = ch, st_closed = cl, st_cons = Flushing, st_w = w\<rparr>" codec]
  by simp

text \<open>Sending one chunk and forwarding it at once.\<close>

lemma steps_forward:
  "(sse_step codec)\<^sup>*\<^sup>*
     \<lparr>st_prod = Running (Write b # k), st_chan = [], st_closed = cl, st_cons = Receiving, st_w = w\<rparr>
     \<lparr>st_prod = Running k, st_chan = [], st_closed = cl, st_cons = Receiving,
      st_w = forward codec b w\<rparr>"
proof -
  let ?s0 = "\<lparr>st_prod = Running (Write b # k), st_chan = [], st_closed = cl, st_cons = Receiving,
              st_w = w\<rparr>"
  let ?s1 = "\<lparr>st_prod = Sending k, st_chan = [b], st_closed = cl, st_cons = Receiving, st_w = w\<rparr>"
  let ?s2 = "\<lparr>st_prod = Running k, st_chan = [], st_closed = cl, st_cons = Encoding b, st_w = w\<rparr>"
  have a: "sse_step codec ?s0 ?s1" using step_send [of codec b k "[]" cl Receiving w] by simp
  have b: "sse_step codec ?s1 ?s2" using step_receive [of codec "Sending k" b "[]" cl w] by simp
  show ?thesis
  proof (cases "sse_frame codec b")
    case None
    then have "sse_step codec ?s2
        \<lparr>st_prod = Running k, st_chan = [], st_closed = cl, st_cons = Receiving, st_w = w\<rparr>"
      by (rule step_skip)
    then show ?thesis using a b None by (auto simp: forward_def intro: rtranclp.intros)
  next
    case (Some frame)
    let ?s3 = "\<lparr>st_prod = Running k, st_chan = [], st_closed = cl, st_cons = Flushing,
                st_w = rw_Write frame w\<rparr>"
    have c: "sse_step codec ?s2 ?s3" using Some by (rule step_write)
    have d: "sse_step codec ?s3
        \<lparr>st_prod = Running k, st_chan = [], st_closed = cl, st_cons = Receiving,
         st_w = rw_Flush (rw_Write frame w)\<rparr>"
      by (rule step_flush)
    have "(sse_step codec)\<^sup>*\<^sup>* ?s0 ?s3"
      using a b c by (meson rtranclp.rtrancl_into_rtrancl rtranclp.rtrancl_refl)
    then show ?thesis using d Some
      by (simp add: forward_def)
  qed
qed

lemma sse_lockstep_run:
  "(sse_step codec)\<^sup>*\<^sup>*
     \<lparr>st_prod = Running k, st_chan = [], st_closed = False, st_cons = Receiving, st_w = w\<rparr>
     \<lparr>st_prod = Returned, st_chan = [], st_closed = True, st_cons = Exited,
      st_w = sse_lockstep codec k w\<rparr>"
proof (induction codec k w rule: sse_lockstep.induct)
  case (1 codec w)
  have "sse_step codec
      \<lparr>st_prod = Running [], st_chan = [], st_closed = False, st_cons = Receiving, st_w = w\<rparr>
      \<lparr>st_prod = Returned, st_chan = [], st_closed = True, st_cons = Receiving, st_w = w\<rparr>"
    by (rule step_return)
  moreover have "sse_step codec
      \<lparr>st_prod = Returned, st_chan = [], st_closed = True, st_cons = Receiving, st_w = w\<rparr>
      \<lparr>st_prod = Returned, st_chan = [], st_closed = True, st_cons = Exited, st_w = w\<rparr>"
    by (rule step_closed)
  ultimately show ?case
    by simp
next
  case (2 codec f k w)
  then show ?case
    using step_header [of codec f k "[]" False Receiving w]
    by (auto intro: converse_rtranclp_into_rtranclp)
next
  case (3 codec statusCode k w)
  then show ?case
    using step_status [of codec statusCode k "[]" False Receiving w]
    by (auto intro: converse_rtranclp_into_rtranclp)
next
  case (4 codec b k w)
  then show ?case
    using steps_forward [of codec b k False w]
    by (auto intro: rtranclp_trans)
qed

lemma sseHandler_lockstep:
  assumes "rw_flusher w"
  shows "sseHandler codec endpointHandler r w
           (sse_lockstep codec (endpointHandler r) (sse_headers w))"
proof -
  let ?s = "\<lparr>st_prod = Returned, st_chan = [], st_closed = True, st_cons = Exited,
             st_w = sse_lockstep codec (endpointHandler r) (sse_headers w)\<rparr>"
  have "sse_reachable codec endpointHandler r w ?s"
    unfolding sse_reachable_def sse_init_def by (rule sse_lockstep_run)
  then show ?thesis using assms unfolding sseHandler_def by force
qed

lemma sse_frame_form:
  "sse_frame codec chunk =
     map_option (\<lambda>j. ''data: '' @ ''{'' @ quoted ''data'' @ '':'' @ j @ ''}'' @ [CHR 0x0A, CHR 0x0A])
       (Marshal codec (responseObj codec chunk))"
  by (simp add: sse_frame_def Marshal_DataResponse_def wrappedResponse_def split: option.splits)

lemma Encoder_Encode_form:
  "Encoder_Encode codec (wrappedResponse codec chunk) =
     map_option (\<lambda>j. ''{'' @ quoted ''data'' @ '':'' @ j @ ''}'' @ [CHR 0x0A])
       (Marshal codec (responseObj codec chunk))"
  by (simp add: Encoder_Encode_def Marshal_DataResponse_def wrappedResponse_def split: option.splits)

lemma not_chunk_ok: "''ok'' \<noteq> utc_chunk \<and> ''ok'' \<noteq> hello_chunk"
  by (simp add: utc_chunk_def hello_chunk_def DateResponse_Marshal_def)

lemma not_chunk_empty: "[] \<noteq> utc_chunk \<and> [] \<noteq> hello_chunk"
  by (simp add: utc_chunk_def hello_chunk_def DateResponse_Marshal_def)

lemma sse_reachable_terminates:
  assumes "sse_reachable codec endpointHandler r w s"
  shows "\<exists>s'. (sse_step codec)\<^sup>*\<^sup>* s s' \<and> st_cons s' = Exited"
  using sse_terminates [OF sse_inv_reachable [OF assms]] .

lemma sse_reachable_lockstep:
  "sse_reachable codec endpointHandler r w
     \<lparr>st_prod = Returned, st_chan = [], st_closed = True, st_cons = Exited,
      st_w = sse_lockstep codec (endpointHandler r) (sse_headers w)\<rparr>"
  unfolding sse_reachable_def sse_init_def by (rule sse_lockstep_run)

lemma example_frame_text:
  assumes "b \<noteq> utc_chunk" and "b \<noteq> hello_chunk"
  shows "sse_frame example_codec b =
     Some (''data: '' @ ''{'' @ quoted ''data'' @ '':'' @ quoted b @ ''}'' @ [CHR 0x0A, CHR 0x0A])"
  using assms by (simp add: sse_frame_form responseObj_def example_codec_def)

lemma not_chunk_done: "''done'' \<noteq> utc_chunk \<and> ''done'' \<noteq> hello_chunk"
  by (simp add: utc_chunk_def hello_chunk_def DateResponse_Marshal_def)

lemma failing_frame_bad: "sse_frame failing_codec ''bad'' = None"
  by (simp add: sse_frame_form responseObj_def failing_codec_def)

lemma failing_frame_text:
  "b \<noteq> ''bad'' \<Longrightarrow> sse_frame failing_codec b =
     Some (''data: '' @ ''{'' @ quoted ''data'' @ '':'' @ quoted b @ ''}'' @ [CHR 0x0A, CHR 0x0A])"
  by (simp add: sse_frame_form responseObj_def failing_codec_def)

lemma date_loop_bound: "int (length (writes (date_loop maxCount count evs))) \<le> max 0 (maxCount - count)"
  by (induction maxCount count evs rule: date_loop.induct) auto

lemma date_maxCount_decimal:
  assumes "k < 2 ^ 63" and "values_Get (req_query r) ''max_count'' = decimal k"
  shows "date_maxCount r = int k"
  using assms Sscanf_d_decimal [of k] decimal_nonempty [of k]
  by (simp add: date_maxCount_def)

lemma drain_writes_le: "length (filter is_WriteCall (drain codec chunks)) \<le> length chunks"
  by (induction chunks) (auto simp: is_WriteCall_def split: option.splits)

lemma frame_calls_writes:
  "filter is_WriteCall (frame_calls cs) = filter is_WriteCall cs"
  by (induction cs) (auto simp: frame_calls_def is_WriteCall_def is_WriteHeaderCall_def split: rw_call.splits)

lemma decimal_1: "decimal 1 = ''1''"
  by (simp add: decimal.simps digit_char_def)

lemma decimal_big: "decimal (2 ^ 63) = ''9223372036854775808''"
  by (simp add: decimal.simps digit_char_def)

lemma Sscanf_d_big: "Sscanf_d ''9223372036854775808'' = Inl OutOfRange"
  by (simp add: Sscanf_d_def scanInt_def SkipSpace.simps isSpace_width_def space_width_def
      is_digit_def ParseInt_def digits_value_def digit_val_def Let_def)

lemma exit_writes_le:
  assumes "rw_calls w = []" and "sse_reachable codec endpointHandler r w s" and "st_cons s = Exited"
  shows "length (filter is_WriteCall (rw_calls (st_w s))) \<le> length (writes (endpointHandler r))"
proof -
  have "frame_calls (rw_calls (st_w s)) = drain codec (writes (endpointHandler r))"
    using sse_exit_frames [OF assms(2,3)] assms(1) by (simp add: frame_calls_def)
  then have "filter is_WriteCall (rw_calls (st_w s)) =
             filter is_WriteCall (drain codec (writes (endpointHandler r)))"
    using frame_calls_writes [of "rw_calls (st_w s)"] by simp
  then show ?thesis using drain_writes_le [of codec "writes (endpointHandler r)"] by simp
qed

lemma date_writes_le:
  assumes "0 < k" and "date_maxCount r = int k"
  shows "length (writes (date_HandleSSE evs r)) \<le> k"
  using date_loop_bound [of "int k" 0 evs] assms by (simp add: date_HandleSSE_def)

lemma sseHandler_frames:
  assumes "rw_flusher w" and "rw_calls w = []" and "sseHandler codec endpointHandler r w w'"
  shows "frame_calls (rw_calls w') = drain codec (writes (endpointHandler r))"
proof -
  obtain s where "sse_reachable codec endpointHandler r w s" and "st_cons s = Exited"
    and "w' = st_w s"
    using assms(1,3) unfolding sseHandler_def by auto
  then show ?thesis
    using sse_exit_frames [of codec endpointHandler r w s] assms(2)
    by (simp add: frame_calls_def)
qed
section \<open>Facts about the relay writer\<close>

lemma slice_bytes_length: "valid_slice m s \<Longrightarrow> length (slice_bytes m s) = len s"
  by (auto simp: valid_slice_def slice_bytes_def)

lemma Write_result:
  "customResponseWriter_Write b (m, responseChan) =
     ((copy_bytes \<lparr>base = next_free m, off = 0, len = len b\<rparr> b (snd (make_bytes (len b) m)),
       responseChan @ [\<lparr>base = next_free m, off = 0, len = len b\<rparr>]),
      (len b, None))"
  by (simp add: customResponseWriter_Write_def make_bytes_def Let_def)

lemma Write_copy:
  assumes "valid_slice m b"
  shows "arrays (copy_bytes \<lparr>base = next_free m, off = 0, len = len b\<rparr> b
                  (snd (make_bytes (len b) m))) =
           (arrays m)(next_free m \<mapsto> slice_bytes m b)"
proof -
  let ?m1 = "snd (make_bytes (len b) m)"
  have ne: "base b \<noteq> next_free m" using assms by (simp add: valid_slice_def)
  have same: "slice_bytes ?m1 b = slice_bytes m b"
    using ne by (simp add: make_bytes_def slice_bytes_def array_at_def)
  have l: "length (slice_bytes m b) = len b" using assms by (rule slice_bytes_length)
  show ?thesis
    using same l
    by (simp add: copy_bytes_def Let_def make_bytes_def array_at_def)
qed

section \<open>The resolver's contract\<close>


section \<open>The single-shot path\<close>





text \<open>
  Claim C10. The recorder starts with status 200, so when the capability makes no
  \<open>WriteHeader\<close> call the captured status is 200 and the handler takes the wrapping
  branch: if the envelope encodes, the one call on the response is the write of the
  envelope of the captured output, and in no case are the captured status and body
  relayed.
\<close>

theorem rest_default_status_wraps:
  assumes "\<forall>c \<in> set (endpointHandler (rest_request r)). \<not> sets_status c"
  shows "code new_recorder = 200 \<and>
         code (record_HandleSSE endpointHandler (rest_request r)) = http_StatusOK \<and>
         (\<forall>out. Encoder_Encode codec
              (wrappedResponse codec (concat (writes (endpointHandler (rest_request r))))) = Some out
            \<longrightarrow> rw_calls (restHandler codec endpointHandler r w) = rw_calls w @ [WriteCall out]) \<and>
         rw_calls (restHandler codec endpointHandler r w) \<noteq>
           rw_calls w @
             [WriteHeaderCall (code (record_HandleSSE endpointHandler (rest_request r))),
              WriteCall (concat (writes (endpointHandler (rest_request r))))]"
proof -
  have a: "code new_recorder = 200"
    by (simp add: new_recorder_def http_StatusOK_def)
  have b: "code (record_HandleSSE endpointHandler (rest_request r)) = http_StatusOK"
    using assms by (simp add: record_HandleSSE_def recorder_code_unset new_recorder_def)
  have c: "\<forall>out. Encoder_Encode codec
              (wrappedResponse codec (concat (writes (endpointHandler (rest_request r))))) = Some out
            \<longrightarrow> rw_calls (restHandler codec endpointHandler r w) = rw_calls w @ [WriteCall out]"
    using restHandler_wrap [OF b, of codec _ w] by (simp add: record_HandleSSE_body)
  have d: "rw_calls (restHandler codec endpointHandler r w) \<noteq>
           rw_calls w @
             [WriteHeaderCall (code (record_HandleSSE endpointHandler (rest_request r))),
              WriteCall (concat (writes (endpointHandler (rest_request r))))]"
  proof (cases "Encoder_Encode codec
           (wrappedResponse codec (body (record_HandleSSE endpointHandler (rest_request r))))")
    case None
    then show ?thesis
      using restHandler_encode_error [OF b None, of w] b
      by (simp add: http_StatusOK_def http_StatusInternalServerError_def)
  next
    case (Some out)
    then show ?thesis using restHandler_wrap [OF b Some, of w] by simp
  qed
  show ?thesis by (intro conjI a b c d)
qed

theorem rest_default_status_wraps_witness:
  "filter sets_status (MockEndpoint_HandleSSE hello_chunk
      (rest_request \<lparr>req_method = ''GET'', req_path = ''/test'', req_query = Map.empty\<rparr>)) = [] \<and>
   rw_calls (restHandler example_codec (MockEndpoint_HandleSSE hello_chunk)
     \<lparr>req_method = ''GET'', req_path = ''/test'', req_query = Map.empty\<rparr> fresh_writer) =
     [WriteCall (''{'' @ quoted ''data'' @ '':'' @ hello_chunk @ ''}'' @ [CHR 0x0A])]"
proof -
  let ?r = "\<lparr>req_method = ''GET'', req_path = ''/test'', req_query = Map.empty\<rparr>"
  have h: "\<forall>c \<in> set (MockEndpoint_HandleSSE hello_chunk (rest_request ?r)). \<not> sets_status c"
    by (simp add: MockEndpoint_HandleSSE_def)
  have enc: "Encoder_Encode example_codec
      (wrappedResponse example_codec
         (concat (writes (MockEndpoint_HandleSSE hello_chunk (rest_request ?r))))) =
      Some (''{'' @ quoted ''data'' @ '':'' @ hello_chunk @ ''}'' @ [CHR 0x0A])"
    using example_hello by (simp add: MockEndpoint_HandleSSE_def)
  have "rw_calls (restHandler example_codec (MockEndpoint_HandleSSE hello_chunk) ?r fresh_writer) =
        rw_calls fresh_writer @ [WriteCall (''{'' @ quoted ''data'' @ '':'' @ hello_chunk @ ''}'' @ [CHR 0x0A])]"
    using rest_default_status_wraps
            [of "MockEndpoint_HandleSSE hello_chunk" ?r example_codec fresh_writer] h enc
    by blast
  moreover have "filter sets_status (MockEndpoint_HandleSSE hello_chunk (rest_request ?r)) = []"
    by (simp add: MockEndpoint_HandleSSE_def)
  ultimately show ?thesis by (simp add: fresh_writer_def)
qed

section \<open>Wrapping and the streaming path\<close>

text \<open>
  Claim C3. Wrapping detects JSON by parsing: when the chunk parses, the parsed value is
  the \<open>data\<close> field, otherwise the chunk's bytes as a string are. The single-shot
  handler writes the encoding of that envelope followed by a newline, the streaming
  handler writes for each chunk the frame of that envelope, and for the empty chunk (which
  \<open>encoding/json\<close> does not parse, and whose string it encodes as two quotes) both give
  the envelope whose \<open>data\<close> is the empty string.
\<close>

theorem success_wrapping_detects_json:
  "(\<forall>v. Unmarshal codec chunk = Some v \<longrightarrow> wrappedResponse codec chunk = \<lparr>Data = v\<rparr>) \<and>
   (Unmarshal codec chunk = None \<longrightarrow> wrappedResponse codec chunk = \<lparr>Data = JString chunk\<rparr>) \<and>
   (\<forall>out. code (record_HandleSSE endpointHandler (rest_request r)) = http_StatusOK \<and>
      Encoder_Encode codec
        (wrappedResponse codec (concat (writes (endpointHandler (rest_request r))))) = Some out
      \<longrightarrow> rw_calls (restHandler codec endpointHandler r w) = rw_calls w @ [WriteCall out]) \<and>
   Encoder_Encode codec (wrappedResponse codec chunk) =
     map_option (\<lambda>j. ''{'' @ quoted ''data'' @ '':'' @ j @ ''}'' @ [CHR 0x0A])
       (Marshal codec (Data (wrappedResponse codec chunk))) \<and>
   (\<forall>s. rw_calls w = [] \<and> sse_reachable codec endpointHandler r w s \<and> st_cons s = Exited
      \<longrightarrow> frame_calls (rw_calls (st_w s)) =
           concat (map (\<lambda>b. case sse_frame codec b of
                               None \<Rightarrow> [] | Some frame \<Rightarrow> [WriteCall frame, FlushCall])
                    (writes (endpointHandler r)))) \<and>
   sse_frame codec chunk =
     map_option (\<lambda>j. ''data: '' @ ''{'' @ quoted ''data'' @ '':'' @ j @ ''}'' @ [CHR 0x0A, CHR 0x0A])
       (Marshal codec (Data (wrappedResponse codec chunk))) \<and>
   (Unmarshal codec [] = None \<and> Marshal codec (JString []) = Some (quoted [])
      \<longrightarrow> Encoder_Encode codec (wrappedResponse codec []) =
            Some (''{'' @ quoted ''data'' @ '':'' @ quoted [] @ ''}'' @ [CHR 0x0A]) \<and>
          sse_frame codec [] =
            Some (''data: '' @ ''{'' @ quoted ''data'' @ '':'' @ quoted [] @ ''}'' @ [CHR 0x0A, CHR 0x0A]))"
proof -
  have a: "\<forall>v. Unmarshal codec chunk = Some v \<longrightarrow> wrappedResponse codec chunk = \<lparr>Data = v\<rparr>"
    by (simp add: wrappedResponse_def responseObj_def)
  have b: "Unmarshal codec chunk = None \<longrightarrow> wrappedResponse codec chunk = \<lparr>Data = JString chunk\<rparr>"
    by (simp add: wrappedResponse_def responseObj_def)
  have c: "\<forall>out. code (record_HandleSSE endpointHandler (rest_request r)) = http_StatusOK \<and>
      Encoder_Encode codec
        (wrappedResponse codec (concat (writes (endpointHandler (rest_request r))))) = Some out
      \<longrightarrow> rw_calls (restHandler codec endpointHandler r w) = rw_calls w @ [WriteCall out]"
    using restHandler_wrap [of endpointHandler r codec _ w] by (simp add: record_HandleSSE_body)
  have d: "Encoder_Encode codec (wrappedResponse codec chunk) =
     map_option (\<lambda>j. ''{'' @ quoted ''data'' @ '':'' @ j @ ''}'' @ [CHR 0x0A])
       (Marshal codec (Data (wrappedResponse codec chunk)))"
    using Encoder_Encode_form [of codec chunk] by (simp add: wrappedResponse_def)
  have e: "\<forall>s. rw_calls w = [] \<and> sse_reachable codec endpointHandler r w s \<and> st_cons s = Exited
      \<longrightarrow> frame_calls (rw_calls (st_w s)) =
           concat (map (\<lambda>b. case sse_frame codec b of
                               None \<Rightarrow> [] | Some frame \<Rightarrow> [WriteCall frame, FlushCall])
                    (writes (endpointHandler r)))"
    using sse_exit_frames [of codec endpointHandler r w] drain_frames [of codec]
    by (simp add: frame_calls_def)
  have f: "sse_frame codec chunk =
     map_option (\<lambda>j. ''data: '' @ ''{'' @ quoted ''data'' @ '':'' @ j @ ''}'' @ [CHR 0x0A, CHR 0x0A])
       (Marshal codec (Data (wrappedResponse codec chunk)))"
    using sse_frame_form [of codec chunk] by (simp add: wrappedResponse_def)
  have g: "Unmarshal codec [] = None \<and> Marshal codec (JString []) = Some (quoted [])
      \<longrightarrow> Encoder_Encode codec (wrappedResponse codec []) =
            Some (''{'' @ quoted ''data'' @ '':'' @ quoted [] @ ''}'' @ [CHR 0x0A]) \<and>
          sse_frame codec [] =
            Some (''data: '' @ ''{'' @ quoted ''data'' @ '':'' @ quoted [] @ ''}'' @ [CHR 0x0A, CHR 0x0A])"
    by (simp add: Encoder_Encode_form sse_frame_form responseObj_def)
  show ?thesis by (intro conjI a b c d e f g)
qed

theorem success_wrapping_detects_json_witness:
  "wrappedResponse example_codec utc_chunk =
     \<lparr>Data = JObject [(''UTC'', JString ''2025-02-27T12:31:34Z'')]\<rparr> \<and>
   sse_frame example_codec utc_chunk =
     Some (''data: '' @ ''{'' @ quoted ''data'' @ '':'' @ utc_chunk @ ''}'' @ [CHR 0x0A, CHR 0x0A]) \<and>
   wrappedResponse example_codec ''ok'' = \<lparr>Data = JString ''ok''\<rparr> \<and>
   Encoder_Encode example_codec (wrappedResponse example_codec ''ok'') =
     Some (''{'' @ quoted ''data'' @ '':'' @ quoted ''ok'' @ ''}'' @ [CHR 0x0A]) \<and>
   Encoder_Encode example_codec (wrappedResponse example_codec []) =
     Some (''{'' @ quoted ''data'' @ '':'' @ quoted [] @ ''}'' @ [CHR 0x0A]) \<and>
   sse_frame example_codec [] =
     Some (''data: '' @ ''{'' @ quoted ''data'' @ '':'' @ quoted [] @ ''}'' @ [CHR 0x0A, CHR 0x0A])"
proof -
  have u: "Unmarshal example_codec utc_chunk = Some (JObject [(''UTC'', JString ''2025-02-27T12:31:34Z'')])"
    by (simp add: example_codec_def)
  have m: "Marshal example_codec (JObject [(''UTC'', JString ''2025-02-27T12:31:34Z'')]) = Some utc_chunk"
    by (simp add: example_codec_def utc_chunk_def DateResponse_Marshal_def)
  have ok: "Unmarshal example_codec ''ok'' = None"
    using not_chunk_ok by (simp add: example_codec_def)
  have mok: "Marshal example_codec (JString ''ok'') = Some (quoted ''ok'')"
    by (simp add: example_codec_def)
  have em: "Unmarshal example_codec [] = None \<and> Marshal example_codec (JString []) = Some (quoted [])"
    using not_chunk_empty by (simp add: example_codec_def)
  note t1 = success_wrapping_detects_json [of example_codec utc_chunk "\<lambda>r. []" "\<lparr>req_method = ''GET'', req_path = ''/test'', req_query = Map.empty\<rparr>" fresh_writer]
  note t2 = success_wrapping_detects_json [of example_codec "''ok''" "\<lambda>r. []" "\<lparr>req_method = ''GET'', req_path = ''/test'', req_query = Map.empty\<rparr>" fresh_writer]
  note t3 = success_wrapping_detects_json [of example_codec "[]" "\<lambda>r. []" "\<lparr>req_method = ''GET'', req_path = ''/test'', req_query = Map.empty\<rparr>" fresh_writer]
  have a: "wrappedResponse example_codec utc_chunk =
     \<lparr>Data = JObject [(''UTC'', JString ''2025-02-27T12:31:34Z'')]\<rparr>"
    using t1 u by blast
  have b: "sse_frame example_codec utc_chunk =
     Some (''data: '' @ ''{'' @ quoted ''data'' @ '':'' @ utc_chunk @ ''}'' @ [CHR 0x0A, CHR 0x0A])"
    using t1 a m by simp
  have c: "wrappedResponse example_codec ''ok'' = \<lparr>Data = JString ''ok''\<rparr>"
    using t2 ok by blast
  have d: "Encoder_Encode example_codec (wrappedResponse example_codec ''ok'') =
     Some (''{'' @ quoted ''data'' @ '':'' @ quoted ''ok'' @ ''}'' @ [CHR 0x0A])"
    using t2 c mok by simp
  have e: "Encoder_Encode example_codec (wrappedResponse example_codec []) =
     Some (''{'' @ quoted ''data'' @ '':'' @ quoted [] @ ''}'' @ [CHR 0x0A]) \<and>
   sse_frame example_codec [] =
     Some (''data: '' @ ''{'' @ quoted ''data'' @ '':'' @ quoted [] @ ''}'' @ [CHR 0x0A, CHR 0x0A])"
    using t3 em by blast
  show ?thesis using a b c d e by blast
qed

text \<open>
  Claim C5. On a streaming connection whose writer has no earlier calls, the frames
  written at any moment are an initial part of the frames of the chunks the capability
  writes, in its order, and are all of them once the loop has left (which every run
  reaches, so the handler returns, and every return of the handler has exactly these
  frames). They are, chunk by chunk, one write of \<open>data: \<close>, the encoded envelope and
  two newlines, followed by a flush; a chunk whose envelope does not encode contributes
  nothing.
\<close>

theorem stream_frames_in_order:
  assumes "rw_calls w = []" and "sse_reachable codec endpointHandler r w s"
  shows "(\<exists>rest. drain codec (writes (endpointHandler r)) = frame_calls (rw_calls (st_w s)) @ rest) \<and>
         (st_cons s = Exited \<longrightarrow>
            frame_calls (rw_calls (st_w s)) = drain codec (writes (endpointHandler r))) \<and>
         drain codec (writes (endpointHandler r)) =
           concat (map (\<lambda>b. case sse_frame codec b of
                               None \<Rightarrow> [] | Some frame \<Rightarrow> [WriteCall frame, FlushCall])
                    (writes (endpointHandler r))) \<and>
         (\<forall>b frame. sse_frame codec b = Some frame \<longrightarrow>
            (\<exists>envelope. Marshal_DataResponse codec (wrappedResponse codec b) = Some envelope \<and>
               frame = ''data: '' @ envelope @ [CHR 0x0A, CHR 0x0A])) \<and>
         (\<exists>s'. (sse_step codec)\<^sup>*\<^sup>* s s' \<and> st_cons s' = Exited) \<and>
         (rw_flusher w \<longrightarrow>
            (\<exists>w'. sseHandler codec endpointHandler r w w') \<and>
            (\<forall>w'. sseHandler codec endpointHandler r w w' \<longrightarrow>
               frame_calls (rw_calls w') = drain codec (writes (endpointHandler r))))"
proof -
  have total: "sse_frames_total codec s = drain codec (writes (endpointHandler r))"
    using sse_frames_total_reachable [OF assms(2)] assms(1) by (simp add: frame_calls_def)
  have a: "\<exists>rest. drain codec (writes (endpointHandler r)) = frame_calls (rw_calls (st_w s)) @ rest"
    using total unfolding sse_frames_total_def by metis
  have b: "st_cons s = Exited \<longrightarrow>
            frame_calls (rw_calls (st_w s)) = drain codec (writes (endpointHandler r))"
    using sse_exit_frames [OF assms(2)] assms(1) by (simp add: frame_calls_def)
  have c: "\<forall>b frame. sse_frame codec b = Some frame \<longrightarrow>
            (\<exists>envelope. Marshal_DataResponse codec (wrappedResponse codec b) = Some envelope \<and>
               frame = ''data: '' @ envelope @ [CHR 0x0A, CHR 0x0A])"
    by (auto simp: sse_frame_def split: option.splits)
  have d: "rw_flusher w \<longrightarrow>
            (\<exists>w'. sseHandler codec endpointHandler r w w') \<and>
            (\<forall>w'. sseHandler codec endpointHandler r w w' \<longrightarrow>
               frame_calls (rw_calls w') = drain codec (writes (endpointHandler r)))"
    using sseHandler_lockstep [of w codec endpointHandler r]
      sseHandler_frames [of w codec endpointHandler r] assms(1)
    by blast
  show ?thesis
    by (intro conjI a b c d drain_frames sse_reachable_terminates [OF assms(2)])
qed

theorem stream_frames_in_order_witness:
  "rw_calls fresh_writer = [] \<and>
   frame_calls (rw_calls (sse_lockstep example_codec [Write ''ok'', Write ''done'']
     (sse_headers fresh_writer))) =
     [WriteCall (''data: '' @ ''{'' @ quoted ''data'' @ '':'' @ quoted ''ok'' @ ''}'' @ [CHR 0x0A, CHR 0x0A]),
      FlushCall,
      WriteCall (''data: '' @ ''{'' @ quoted ''data'' @ '':'' @ quoted ''done'' @ ''}'' @ [CHR 0x0A, CHR 0x0A]),
      FlushCall]"
proof -
  let ?e = "\<lambda>r :: request. [Write ''ok'', Write ''done'']"
  let ?r = "\<lparr>req_method = ''GET'', req_path = ''/test/stream'', req_query = Map.empty\<rparr>"
  let ?s = "\<lparr>st_prod = Returned, st_chan = [], st_closed = True, st_cons = Exited,
             st_w = sse_lockstep example_codec (?e ?r) (sse_headers fresh_writer)\<rparr>"
  have w: "rw_calls fresh_writer = []" by (simp add: fresh_writer_def)
  have reach: "sse_reachable example_codec ?e ?r fresh_writer ?s"
    by (rule sse_reachable_lockstep)
  have "frame_calls (rw_calls (st_w ?s)) = drain example_codec (writes (?e ?r))"
    using stream_frames_in_order [OF w reach] by simp
  moreover have "drain example_codec (writes (?e ?r)) =
     [WriteCall (''data: '' @ ''{'' @ quoted ''data'' @ '':'' @ quoted ''ok'' @ ''}'' @ [CHR 0x0A, CHR 0x0A]),
      FlushCall,
      WriteCall (''data: '' @ ''{'' @ quoted ''data'' @ '':'' @ quoted ''done'' @ ''}'' @ [CHR 0x0A, CHR 0x0A]),
      FlushCall]"
    using not_chunk_ok not_chunk_done by (simp add: example_frame_text)
  ultimately show ?thesis using w by simp
qed

text \<open>
  Claim C8. When encoding the envelope of a chunk fails, the loop's only move is back to
  receiving, with nothing written for that chunk; the frames of a finished stream are
  then the frames of the chunks before it followed by the frames of the chunks after
  it, and every run of the connection still reaches the end of the loop.
\<close>

theorem encode_failure_drops_only_that_chunk:
  assumes "sse_frame codec b = None"
  shows "drain codec (pre @ b # post) = drain codec pre @ drain codec post \<and>
         (\<forall>s s'. st_cons s = Encoding b \<and> sse_step codec s s' \<and> st_cons s' \<noteq> Encoding b
            \<longrightarrow> st_cons s' = Receiving \<and> st_w s' = st_w s) \<and>
         (\<forall>endpointHandler r w s.
            rw_calls w = [] \<and> writes (endpointHandler r) = pre @ b # post \<and>
            sse_reachable codec endpointHandler r w s
            \<longrightarrow> (\<exists>s'. (sse_step codec)\<^sup>*\<^sup>* s s' \<and> st_cons s' = Exited \<and>
                   frame_calls (rw_calls (st_w s')) = drain codec pre @ drain codec post))"
proof -
  have a: "drain codec (pre @ b # post) = drain codec pre @ drain codec post"
    using assms by (simp add: drain_append)
  have b: "\<forall>s s'. st_cons s = Encoding b \<and> sse_step codec s s' \<and> st_cons s' \<noteq> Encoding b
            \<longrightarrow> st_cons s' = Receiving \<and> st_w s' = st_w s"
  proof (intro allI impI)
    fix s s'
    assume h: "st_cons s = Encoding b \<and> sse_step codec s s' \<and> st_cons s' \<noteq> Encoding b"
    then have "sse_step codec s s'" by simp
    then show "st_cons s' = Receiving \<and> st_w s' = st_w s"
      using h assms by (cases rule: sse_step.cases) auto
  qed
  have c: "\<forall>endpointHandler r w s.
            rw_calls w = [] \<and> writes (endpointHandler r) = pre @ b # post \<and>
            sse_reachable codec endpointHandler r w s
            \<longrightarrow> (\<exists>s'. (sse_step codec)\<^sup>*\<^sup>* s s' \<and> st_cons s' = Exited \<and>
                   frame_calls (rw_calls (st_w s')) = drain codec pre @ drain codec post)"
  proof (intro allI impI)
    fix endpointHandler r w s
    assume h: "rw_calls w = [] \<and> writes (endpointHandler r) = pre @ b # post \<and>
            sse_reachable codec endpointHandler r w s"
    then obtain s' where s': "(sse_step codec)\<^sup>*\<^sup>* s s'" "st_cons s' = Exited"
      using sse_reachable_terminates by blast
    have "sse_reachable codec endpointHandler r w s'"
      using h s'(1) unfolding sse_reachable_def by (meson rtranclp_trans)
    then have "frame_calls (rw_calls (st_w s')) = drain codec (pre @ b # post)"
      using sse_exit_frames [of codec endpointHandler r w s'] s'(2) h
      by (simp add: frame_calls_def)
    then show "\<exists>s'. (sse_step codec)\<^sup>*\<^sup>* s s' \<and> st_cons s' = Exited \<and>
                   frame_calls (rw_calls (st_w s')) = drain codec pre @ drain codec post"
      using s' a by auto
  qed
  show ?thesis by (intro conjI a b c)
qed

theorem encode_failure_drops_only_that_chunk_witness:
  "sse_frame failing_codec ''bad'' = None \<and>
   drain failing_codec ([''a''] @ ''bad'' # [''c'']) =
     [WriteCall (''data: '' @ ''{'' @ quoted ''data'' @ '':'' @ quoted ''a'' @ ''}'' @ [CHR 0x0A, CHR 0x0A]),
      FlushCall,
      WriteCall (''data: '' @ ''{'' @ quoted ''data'' @ '':'' @ quoted ''c'' @ ''}'' @ [CHR 0x0A, CHR 0x0A]),
      FlushCall]"
proof -
  have "drain failing_codec ([''a''] @ ''bad'' # [''c'']) =
          drain failing_codec [''a''] @ drain failing_codec [''c'']"
    using encode_failure_drops_only_that_chunk [OF failing_frame_bad, of "[''a'']" "[''c'']"]
    by blast
  then show ?thesis using failing_frame_bad by (simp add: failing_frame_text)
qed



text \<open>
  Claim C4 does not hold as stated. The streaming handler hands the request to the
  capability as it came and forwards whatever the capability writes: a capability that
  writes two chunks gets two frames to the client of \<open>max_count=1\<close>. And the date
  endpoint, sent the numeral of \<open>2^63\<close>, reads the limit 0 rather than \<open>2^63\<close>.
\<close>

theorem stream_limit_counterexample:
  "values_Get (req_query \<lparr>req_method = ''GET'', req_path = ''/test/stream'',
      req_query = [''max_count'' \<mapsto> [''1'']]\<rparr>) ''max_count'' = decimal 1 \<and>
   sseHandler example_codec (\<lambda>r. [Write ''a'', Write ''b''])
     \<lparr>req_method = ''GET'', req_path = ''/test/stream'', req_query = [''max_count'' \<mapsto> [''1'']]\<rparr>
     fresh_writer
     (sse_lockstep example_codec [Write ''a'', Write ''b''] (sse_headers fresh_writer)) \<and>
   length (filter is_WriteCall (rw_calls
     (sse_lockstep example_codec [Write ''a'', Write ''b''] (sse_headers fresh_writer)))) = 2 \<and>
   values_Get (req_query \<lparr>req_method = ''GET'', req_path = ''/date/stream'',
      req_query = [''max_count'' \<mapsto> [''9223372036854775808'']]\<rparr>) ''max_count'' = decimal (2 ^ 63) \<and>
   date_maxCount \<lparr>req_method = ''GET'', req_path = ''/date/stream'',
      req_query = [''max_count'' \<mapsto> [''9223372036854775808'']]\<rparr> = 0"
proof -
  let ?e = "\<lambda>r :: request. [Write ''a'', Write ''b'']"
  let ?r = "\<lparr>req_method = ''GET'', req_path = ''/test/stream'',
             req_query = [''max_count'' \<mapsto> [''1'']]\<rparr>"
  have a: "values_Get (req_query ?r) ''max_count'' = decimal 1"
    using decimal_1 by (simp add: values_Get_def)
  have "rw_flusher fresh_writer" by (simp add: fresh_writer_def)
  then have b: "sseHandler example_codec ?e ?r fresh_writer
      (sse_lockstep example_codec (?e ?r) (sse_headers fresh_writer))"
    by (rule sseHandler_lockstep)
  have fa: "sse_frame example_codec ''a'' \<noteq> None" and fb: "sse_frame example_codec ''b'' \<noteq> None"
    by (simp_all add: example_frame_text utc_chunk_def hello_chunk_def DateResponse_Marshal_def)
  have c: "length (filter is_WriteCall (rw_calls
     (sse_lockstep example_codec [Write ''a'', Write ''b''] (sse_headers fresh_writer)))) = 2"
    using fa fb
    by (auto simp: forward_def rw_Write_def rw_Flush_def fresh_writer_def is_WriteCall_def)
  have d: "values_Get (req_query \<lparr>req_method = ''GET'', req_path = ''/date/stream'',
      req_query = [''max_count'' \<mapsto> [''9223372036854775808'']]\<rparr>) ''max_count'' = decimal (2 ^ 63)"
    using decimal_big by (simp add: values_Get_def)
  have e: "date_maxCount \<lparr>req_method = ''GET'', req_path = ''/date/stream'',
      req_query = [''max_count'' \<mapsto> [''9223372036854775808'']]\<rparr> = 0"
    by (simp add: date_maxCount_def values_Get_def Sscanf_d_big)
  show ?thesis using a b c d e by simp
qed

text \<open>
  Claim C4, amended. The streaming handler starts the capability on the request as it
  came, so the capability reads the client's \<open>max_count\<close> itself, and the handler
  writes at most one frame for each chunk the capability writes: the client receives at
  most \<open>k\<close> frames whenever the capability writes at most \<open>k\<close> chunks. The date endpoint
  does: for \<open>0 < k < 2^63\<close> it reads the limit \<open>k\<close> from the numeral of \<open>k\<close> and writes at
  most \<open>k\<close> chunks.
\<close>

theorem stream_limit_left_to_capability:
  assumes "rw_calls w = []" and "sse_reachable codec endpointHandler r w s"
    and "st_cons s = Exited"
  shows "st_prod (sse_init endpointHandler r (sse_headers w)) = Running (endpointHandler r) \<and>
         length (filter is_WriteCall (rw_calls (st_w s))) \<le> length (writes (endpointHandler r)) \<and>
         (\<forall>k. length (writes (endpointHandler r)) \<le> k
            \<longrightarrow> length (filter is_WriteCall (rw_calls (st_w s))) \<le> k) \<and>
         (\<forall>k evs. 0 < k \<and> k < 2 ^ 63 \<and> values_Get (req_query r) ''max_count'' = decimal k
            \<longrightarrow> date_maxCount r = int k \<and>
                length (writes (date_HandleSSE evs r)) \<le> k \<and>
                (endpointHandler = date_HandleSSE evs
                  \<longrightarrow> length (filter is_WriteCall (rw_calls (st_w s))) \<le> k))"
proof -
  have a: "st_prod (sse_init endpointHandler r (sse_headers w)) = Running (endpointHandler r)"
    by (simp add: sse_init_def)
  have b: "length (filter is_WriteCall (rw_calls (st_w s))) \<le> length (writes (endpointHandler r))"
    using assms by (rule exit_writes_le)
  have c: "\<forall>k. length (writes (endpointHandler r)) \<le> k
            \<longrightarrow> length (filter is_WriteCall (rw_calls (st_w s))) \<le> k"
    using b by simp
  have d: "\<forall>k evs. 0 < k \<and> k < 2 ^ 63 \<and> values_Get (req_query r) ''max_count'' = decimal k
            \<longrightarrow> date_maxCount r = int k \<and>
                length (writes (date_HandleSSE evs r)) \<le> k \<and>
                (endpointHandler = date_HandleSSE evs
                  \<longrightarrow> length (filter is_WriteCall (rw_calls (st_w s))) \<le> k)"
  proof (intro allI impI)
    fix k evs
    assume h: "0 < k \<and> k < 2 ^ 63 \<and> values_Get (req_query r) ''max_count'' = decimal k"
    then have m: "date_maxCount r = int k" using date_maxCount_decimal by blast
    then have l: "length (writes (date_HandleSSE evs r)) \<le> k"
      using date_writes_le h by blast
    show "date_maxCount r = int k \<and>
                length (writes (date_HandleSSE evs r)) \<le> k \<and>
                (endpointHandler = date_HandleSSE evs
                  \<longrightarrow> length (filter is_WriteCall (rw_calls (st_w s))) \<le> k)"
      using m l b by auto
  qed
  show ?thesis by (intro conjI a b c d)
qed

theorem stream_limit_left_to_capability_witness:
  "rw_calls fresh_writer = [] \<and>
   date_maxCount \<lparr>req_method = ''GET'', req_path = ''/date/stream'',
      req_query = [''max_count'' \<mapsto> [''1'']]\<rparr> = 1 \<and>
   length (filter is_WriteCall (rw_calls
     (sse_lockstep example_codec
        (date_HandleSSE [Tick ''2025-02-27T12:31:34Z'', Tick ''2025-02-27T12:31:35Z'']
           \<lparr>req_method = ''GET'', req_path = ''/date/stream'',
             req_query = [''max_count'' \<mapsto> [''1'']]\<rparr>)
        (sse_headers fresh_writer)))) \<le> 1"
proof -
  let ?evs = "[Tick ''2025-02-27T12:31:34Z'', Tick ''2025-02-27T12:31:35Z'']"
  let ?r = "\<lparr>req_method = ''GET'', req_path = ''/date/stream'',
             req_query = [''max_count'' \<mapsto> [''1'']]\<rparr>"
  let ?s = "\<lparr>st_prod = Returned, st_chan = [], st_closed = True, st_cons = Exited,
             st_w = sse_lockstep example_codec (date_HandleSSE ?evs ?r) (sse_headers fresh_writer)\<rparr>"
  have w: "rw_calls fresh_writer = []" by (simp add: fresh_writer_def)
  have reach: "sse_reachable example_codec (date_HandleSSE ?evs) ?r fresh_writer ?s"
    by (rule sse_reachable_lockstep)
  have ex: "st_cons ?s = Exited" by simp
  have q: "(0::nat) < 1 \<and> (1::nat) < 2 ^ 63 \<and> values_Get (req_query ?r) ''max_count'' = decimal 1"
    using decimal_1 by (simp add: values_Get_def)
  have "date_maxCount ?r = int 1 \<and> length (filter is_WriteCall (rw_calls (st_w ?s))) \<le> 1"
    using stream_limit_left_to_capability [OF w reach ex] q by blast
  then show ?thesis using w by simp
qed

section \<open>The relay writer\<close>

text \<open>
  Claim C9. For a slice \<open>b\<close> of the caller, in a memory whose arrays all lie below the
  next free address, \<open>Write(b)\<close> returns \<open>(len(b), nil)\<close> and appends to the channel one
  slice over a newly allocated array that holds the bytes of \<open>b\<close> at the time of the
  call; whatever is later stored into the array behind \<open>b\<close>, or into any array that
  existed before the call, the chunk sent still holds those bytes.
\<close>

theorem relay_write_sends_fresh_copy:
  assumes "valid_slice m b" and "\<forall>a \<in> dom (arrays m). a < next_free m"
  shows "snd (customResponseWriter_Write b (m, responseChan)) = (len b, None) \<and>
         (\<exists>data. snd (fst (customResponseWriter_Write b (m, responseChan))) = responseChan @ [data] \<and>
            base data \<notin> dom (arrays m) \<and> len data = len b \<and>
            slice_bytes (fst (fst (customResponseWriter_Write b (m, responseChan)))) data =
              slice_bytes m b \<and>
            (\<forall>bs. slice_bytes
                    (store_array (base b) bs (fst (fst (customResponseWriter_Write b (m, responseChan)))))
                    data = slice_bytes m b) \<and>
            (\<forall>a bs. a \<in> dom (arrays m) \<longrightarrow>
                   slice_bytes
                    (store_array a bs (fst (fst (customResponseWriter_Write b (m, responseChan)))))
                    data = slice_bytes m b))"
proof -
  let ?data = "\<lparr>base = next_free m, off = 0, len = len b\<rparr>"
  let ?m2 = "fst (fst (customResponseWriter_Write b (m, responseChan)))"
  have arr: "arrays ?m2 = (arrays m)(next_free m \<mapsto> slice_bytes m b)"
    using Write_copy [OF assms(1)] by (simp add: Write_result)
  have l: "length (slice_bytes m b) = len b" using assms(1) by (rule slice_bytes_length)
  have fresh: "next_free m \<notin> dom (arrays m)" using assms(2) by auto
  have keep: "slice_bytes (store_array a bs ?m2) ?data = slice_bytes m b"
    if "a \<noteq> next_free m" for a bs
    using that arr l by (simp add: slice_bytes_def store_array_def array_at_def)
  have r: "snd (customResponseWriter_Write b (m, responseChan)) = (len b, None)"
    by (simp add: Write_result)
  have c: "snd (fst (customResponseWriter_Write b (m, responseChan))) = responseChan @ [?data]"
    by (simp add: Write_result)
  have now: "slice_bytes ?m2 ?data = slice_bytes m b"
    using arr l by (simp add: slice_bytes_def array_at_def)
  have nb: "base b \<noteq> next_free m" using assms(1) by (simp add: valid_slice_def)
  have later: "\<forall>bs. slice_bytes (store_array (base b) bs ?m2) ?data = slice_bytes m b"
    using keep [OF nb] by simp
  have others: "\<forall>a bs. a \<in> dom (arrays m) \<longrightarrow>
      slice_bytes (store_array a bs ?m2) ?data = slice_bytes m b"
  proof (intro allI impI)
    fix a bs
    assume "a \<in> dom (arrays m)"
    then have "a \<noteq> next_free m" using fresh by auto
    then show "slice_bytes (store_array a bs ?m2) ?data = slice_bytes m b" by (rule keep)
  qed
  have "snd (fst (customResponseWriter_Write b (m, responseChan))) = responseChan @ [?data] \<and>
            base ?data \<notin> dom (arrays m) \<and> len ?data = len b \<and>
            slice_bytes ?m2 ?data = slice_bytes m b \<and>
            (\<forall>bs. slice_bytes (store_array (base b) bs ?m2) ?data = slice_bytes m b) \<and>
            (\<forall>a bs. a \<in> dom (arrays m) \<longrightarrow>
                   slice_bytes (store_array a bs ?m2) ?data = slice_bytes m b)"
    using c fresh now later others by simp
  then show ?thesis using r by blast
qed

theorem relay_write_sends_fresh_copy_witness:
  "valid_slice \<lparr>arrays = [0 \<mapsto> ''hello''], next_free = 1\<rparr> \<lparr>base = 0, off = 1, len = 3\<rparr> \<and>
   snd (customResponseWriter_Write \<lparr>base = 0, off = 1, len = 3\<rparr>
          (\<lparr>arrays = [0 \<mapsto> ''hello''], next_free = 1\<rparr>, [])) = (3, None) \<and>
   snd (fst (customResponseWriter_Write \<lparr>base = 0, off = 1, len = 3\<rparr>
          (\<lparr>arrays = [0 \<mapsto> ''hello''], next_free = 1\<rparr>, []))) =
     [\<lparr>base = 1, off = 0, len = 3\<rparr>] \<and>
   slice_bytes
     (store_array 0 ''XXXXX''
        (fst (fst (customResponseWriter_Write \<lparr>base = 0, off = 1, len = 3\<rparr>
          (\<lparr>arrays = [0 \<mapsto> ''hello''], next_free = 1\<rparr>, [])))))
     \<lparr>base = 1, off = 0, len = 3\<rparr> = ''ell''"
proof -
  let ?m = "\<lparr>arrays = [0 \<mapsto> ''hello''], next_free = 1\<rparr>"
  let ?b = "\<lparr>base = 0, off = 1, len = 3\<rparr>"
  have v: "valid_slice ?m ?b" by (simp add: valid_slice_def array_at_def)
  have d: "\<forall>a \<in> dom (arrays ?m). a < next_free ?m" by simp
  have sb: "slice_bytes ?m ?b = ''ell''" by (simp add: slice_bytes_def array_at_def)
  have c: "snd (fst (customResponseWriter_Write ?b (?m, []))) = [\<lparr>base = 1, off = 0, len = 3\<rparr>]"
    by (simp add: Write_result)
  from relay_write_sends_fresh_copy [OF v d, of "[]"]
  obtain data where
    r: "snd (customResponseWriter_Write ?b (?m, [])) = (len ?b, None)" and
    ch: "snd (fst (customResponseWriter_Write ?b (?m, []))) = [] @ [data]" and
    st: "\<forall>bs. slice_bytes (store_array (base ?b) bs (fst (fst (customResponseWriter_Write ?b (?m, [])))))
            data = slice_bytes ?m ?b"
    by blast
  have "data = \<lparr>base = 1, off = 0, len = 3\<rparr>" using ch c by simp
  then have "slice_bytes (store_array 0 ''XXXXX'' (fst (fst (customResponseWriter_Write ?b (?m, [])))))
      \<lparr>base = 1, off = 0, len = 3\<rparr> = ''ell''"
    using st sb by simp
  then show ?thesis using v r c by simp
qed


end
